theory Spec2Isabelle
  imports Main
begin

section \<open>Data model of the editor widget\<close>

text \<open>
  Go's \<open>int\<close> and the fixed-point type \<open>fixed.Int26_6\<close> are modelled by \<open>int\<close>: an
  \<open>Int26_6\<close> value is its raw number of 64ths of a pixel. The pixel quantities of a
  layout stay far from the limits of the machine types, and no wrap-around is modelled.
\<close>

type_synonym Int26_6 = int

text \<open>\<open>fixed.Int26_6.Floor\<close>, \<open>Ceil\<close> and \<open>fixed.I\<close> of golang.org/x/image/math/fixed:
  \<open>x >> 6\<close>, \<open>(x + 0x3f) >> 6\<close> and \<open>i << 6\<close>.\<close>

definition Floor :: "Int26_6 \<Rightarrow> int" where
  "Floor x = x div 64"

definition Ceil :: "Int26_6 \<Rightarrow> int" where
  "Ceil x = (x + 63) div 64"

definition fixed_I :: "int \<Rightarrow> Int26_6" where
  "fixed_I i = i * 64"

datatype panic = IndexOutOfRange

record Point =
  X :: int
  Y :: int

record Rectangle =
  Min_pt :: Point
  Max_pt :: Point

record Dimensions =
  Size :: Point
  Baseline :: int

text \<open>\<open>text.Alignment\<close>, \<open>text.Glyph\<close> and \<open>text.Line\<close> of the toolkit (the visible
  bounds of a line are used by the caret painter only and are left out).\<close>

datatype Alignment = Start | End | Middle

record Glyph =
  Rune :: int
  Advance :: Int26_6

record Line =
  Layout :: "Glyph list"
  Len :: int
  Width :: Int26_6
  Ascent :: Int26_6
  Descent :: Int26_6

datatype Event = ChangeEvent | SubmitEvent string

text \<open>Modelled from the spec: the type \<open>editBuffer\<close> of the field \<open>rr\<close> is declared in a
  file that is not among the sources. The editor is described as an editable text with a
  caret; the buffer is modelled by the bytes of its contents, the caret's byte offset
  (the field \<open>caret\<close> that editor.go reads and writes) and the flag behind \<open>Changed\<close>.\<close>

record editBuffer =
  text_b :: string
  caret :: int
  changed :: bool

text \<open>The fields of \<open>Editor\<close> that hold the text, the layout, the caret and the scroll
  position. The toolkit handles (shaper, font, gesture recognisers, event key), the mask
  and the drawing caches carry no information the functions below compute with.\<close>

record Editor =
  Alignment :: Alignment
  SingleLine :: bool
  Submit :: bool
  blinkStart :: int
  focused :: bool
  rr :: editBuffer
  maxWidth :: int
  viewSize :: Point
  valid :: bool
  lines :: "Line list"
  dims :: Dimensions
  requestFocus :: bool
  caretScroll :: bool
  carXOff :: Int26_6
  scrollOff :: Point
  events :: "Event list"

text \<open>The function \<open>align\<close> (alignment, line width, available width, giving the
  horizontal offset of a line) is declared outside the sources; every function that calls
  it takes it as the parameter \<open>align\<close>.\<close>

type_synonym align_fn = "Alignment \<Rightarrow> Int26_6 \<Rightarrow> int \<Rightarrow> Int26_6"

section \<open>Scrolling\<close>

definition scrollBounds :: "align_fn \<Rightarrow> Editor \<Rightarrow> Rectangle" where
  "scrollBounds align e =
     (if SingleLine e then
        (let minx = (case lines e of
                       [] \<Rightarrow> 0
                     | l0 # _ \<Rightarrow>
                         (let m = Floor (align (Alignment e) (Width l0) (X (viewSize e)))
                          in if m > 0 then 0 else m))
         in \<lparr>Min_pt = \<lparr>X = minx, Y = 0\<rparr>,
             Max_pt = \<lparr>X = X (Size (dims e)) + minx - X (viewSize e), Y = 0\<rparr>\<rparr>)
      else \<lparr>Min_pt = \<lparr>X = 0, Y = 0\<rparr>,
            Max_pt = \<lparr>X = 0, Y = Y (Size (dims e)) - Y (viewSize e)\<rparr>\<rparr>)"

definition scrollAbs :: "align_fn \<Rightarrow> Editor \<Rightarrow> int \<Rightarrow> int \<Rightarrow> Editor" where
  "scrollAbs align e x y =
     (let e0 = e\<lparr>scrollOff := \<lparr>X = x, Y = y\<rparr>\<rparr>;
          b = scrollBounds align e0;
          e1 = (if X (scrollOff e0) > X (Max_pt b)
                then e0\<lparr>scrollOff := (scrollOff e0)\<lparr>X := X (Max_pt b)\<rparr>\<rparr> else e0);
          e2 = (if X (scrollOff e1) < X (Min_pt b)
                then e1\<lparr>scrollOff := (scrollOff e1)\<lparr>X := X (Min_pt b)\<rparr>\<rparr> else e1);
          e3 = (if Y (scrollOff e2) > Y (Max_pt b)
                then e2\<lparr>scrollOff := (scrollOff e2)\<lparr>Y := Y (Max_pt b)\<rparr>\<rparr> else e2);
          e4 = (if Y (scrollOff e3) < Y (Min_pt b)
                then e3\<lparr>scrollOff := (scrollOff e3)\<lparr>Y := Y (Min_pt b)\<rparr>\<rparr> else e3)
      in e4)"

definition scrollRel :: "align_fn \<Rightarrow> Editor \<Rightarrow> int \<Rightarrow> int \<Rightarrow> Editor" where
  "scrollRel align e dx dy = scrollAbs align e (X (scrollOff e) + dx) (Y (scrollOff e) + dy)"

section \<open>Runes\<close>

text \<open>\<open>utf8.RuneLen\<close>, \<open>utf8.RuneStart\<close> and the sizes returned by \<open>utf8.DecodeRune\<close> and
  \<open>utf8.DecodeLastRune\<close> of Go's standard library, on byte values. The editor uses only the
  size of a decoded rune.\<close>

definition RuneLen :: "int \<Rightarrow> int" where
  "RuneLen r =
     (if r < 0 then - 1
      else if r \<le> 0x7F then 1
      else if r \<le> 0x7FF then 2
      else if 0xD800 \<le> r \<and> r \<le> 0xDFFF then - 1
      else if r \<le> 0xFFFF then 3
      else if r \<le> 0x10FFFF then 4
      else - 1)"

definition RuneStart :: "nat \<Rightarrow> bool" where
  "RuneStart b = (b < 0x80 \<or> 0xC0 \<le> b)"

definition DecodeRune_size :: "nat list \<Rightarrow> int" where
  "DecodeRune_size p =
     (case p of
        [] \<Rightarrow> 0
      | p0 # ps \<Rightarrow>
          (if p0 < 0xC2 \<or> 0xF4 < p0 then 1
           else
             (let sz = (if p0 < 0xE0 then 2 else if p0 < 0xF0 then 3 else (4::nat));
                  lo = (if p0 = 0xE0 then 0xA0 else if p0 = 0xF0 then 0x90 else 0x80);
                  hi = (if p0 = 0xED then 0x9F else if p0 = 0xF4 then 0x8F else 0xBF)
              in if length p < sz then 1
                 else if ps ! 0 < lo \<or> hi < ps ! 0 then 1
                 else if sz \<le> 2 then 2
                 else if ps ! 1 < 0x80 \<or> 0xBF < ps ! 1 then 1
                 else if sz \<le> 3 then 3
                 else if ps ! 2 < 0x80 \<or> 0xBF < ps ! 2 then 1
                 else 4)))"

function lastRuneStart :: "nat list \<Rightarrow> int \<Rightarrow> int \<Rightarrow> int" where
  "lastRuneStart p start lim =
     (if start \<ge> lim
      then (if RuneStart (p ! nat start) then start else lastRuneStart p (start - 1) lim)
      else start)"
  by pat_completeness auto
termination
  by (relation "measure (\<lambda>(p, start, lim). nat (start - lim + 1))") auto

definition DecodeLastRune_size :: "nat list \<Rightarrow> int" where
  "DecodeLastRune_size p =
     (let end = int (length p) in
      if end = 0 then 0
      else if p ! nat (end - 1) < 0x80 then 1
      else
        (let lim = (if end - 4 < 0 then 0 else end - 4);
             start0 = lastRuneStart p (end - 2) lim;
             start = (if start0 < 0 then 0 else start0);
             sz = DecodeRune_size (drop (nat start) p)
         in if start + sz \<noteq> end then 1 else sz))"

section \<open>The edit buffer\<close>

definition then_do :: "panic + 'a \<Rightarrow> ('a \<Rightarrow> panic + 'b) \<Rightarrow> panic + 'b" where
  "then_do r f = (case r of Inl p \<Rightarrow> Inl p | Inr a \<Rightarrow> f a)"

text \<open>Modelled from the spec: \<open>editBuffer.len\<close> and \<open>editBuffer.String\<close> are missing from the
  sources; they are the byte length and the bytes of the edited text.\<close>

definition rr_len :: "editBuffer \<Rightarrow> int" where
  "rr_len b = int (length (text_b b))"

definition rr_String :: "editBuffer \<Rightarrow> string" where
  "rr_String b = text_b b"

text \<open>Modelled from the spec: \<open>editBuffer.Changed\<close> is missing from the sources; it reports
  whether the text has changed since it was last asked, and clears that flag.\<close>

definition Changed :: "editBuffer \<Rightarrow> bool \<times> editBuffer" where
  "Changed b = (changed b, b\<lparr>changed := False\<rparr>)"

text \<open>Modelled from the spec: \<open>editBuffer.prepend\<close> is missing from the sources; it inserts
  the string at the caret and leaves the caret in front of the inserted text (the caller
  \<open>Editor.append\<close> advances it). A caret outside the text is an out-of-range slice.\<close>

definition rr_prepend :: "editBuffer \<Rightarrow> string \<Rightarrow> panic + editBuffer" where
  "rr_prepend b s =
     (if 0 \<le> caret b \<and> caret b \<le> rr_len b
      then Inr (b\<lparr>text_b := take (nat (caret b)) (text_b b) @ s @ drop (nat (caret b)) (text_b b),
                  changed := (changed b \<or> s \<noteq> [])\<rparr>)
      else Inl IndexOutOfRange)"

text \<open>Modelled from the spec: \<open>editBuffer.runeAt\<close> and \<open>editBuffer.runeBefore\<close> are missing
  from the sources; they decode the rune that starts, respectively ends, at a byte offset
  of the text. Only the size in bytes is kept, the one result their callers use.\<close>

definition runeAt :: "editBuffer \<Rightarrow> int \<Rightarrow> panic + int" where
  "runeAt b idx =
     (if 0 \<le> idx \<and> idx \<le> rr_len b
      then Inr (DecodeRune_size (map of_char (drop (nat idx) (text_b b))))
      else Inl IndexOutOfRange)"

definition runeBefore :: "editBuffer \<Rightarrow> int \<Rightarrow> panic + int" where
  "runeBefore b idx =
     (if 0 \<le> idx \<and> idx \<le> rr_len b
      then Inr (DecodeLastRune_size (map of_char (take (nat idx) (text_b b))))
      else Inl IndexOutOfRange)"

text \<open>Modelled from the spec: \<open>editBuffer.move\<close> is missing from the sources; it moves the
  caret by a number of runes, backward for a negative number, and stops at either end of
  the text.\<close>

fun move_back :: "nat \<Rightarrow> editBuffer \<Rightarrow> panic + editBuffer" where
  "move_back 0 b = Inr b"
| "move_back (Suc n) b =
     (if caret b > 0
      then then_do (runeBefore b (caret b)) (\<lambda>s. move_back n (b\<lparr>caret := caret b - s\<rparr>))
      else Inr b)"

fun move_forward :: "nat \<Rightarrow> editBuffer \<Rightarrow> panic + editBuffer" where
  "move_forward 0 b = Inr b"
| "move_forward (Suc n) b =
     (if caret b < rr_len b
      then then_do (runeAt b (caret b)) (\<lambda>s. move_forward n (b\<lparr>caret := caret b + s\<rparr>))
      else Inr b)"

definition rr_move :: "editBuffer \<Rightarrow> int \<Rightarrow> panic + editBuffer" where
  "rr_move b runes = (if runes < 0 then move_back (nat (- runes)) b else move_forward (nat runes) b)"

text \<open>Modelled from the spec: \<open>editBuffer.deleteRunes\<close> is missing from the sources; it
  deletes a number of runes after the caret, or before it for a negative number.\<close>

fun delete_back :: "nat \<Rightarrow> editBuffer \<Rightarrow> panic + editBuffer" where
  "delete_back 0 b = Inr b"
| "delete_back (Suc n) b =
     (if caret b > 0
      then then_do (runeBefore b (caret b))
             (\<lambda>s. delete_back n
                     (b\<lparr>text_b := take (nat (caret b - s)) (text_b b) @ drop (nat (caret b)) (text_b b),
                        caret := caret b - s, changed := (changed b \<or> s > 0)\<rparr>))
      else Inr b)"

fun delete_forward :: "nat \<Rightarrow> editBuffer \<Rightarrow> panic + editBuffer" where
  "delete_forward 0 b = Inr b"
| "delete_forward (Suc n) b =
     (if caret b < rr_len b
      then then_do (runeAt b (caret b))
             (\<lambda>s. delete_forward n
                     (b\<lparr>text_b := take (nat (caret b)) (text_b b) @ drop (nat (caret b + s)) (text_b b),
                        changed := (changed b \<or> s > 0)\<rparr>))
      else Inr b)"

definition deleteRunes :: "editBuffer \<Rightarrow> int \<Rightarrow> panic + editBuffer" where
  "deleteRunes b runes =
     (if runes < 0 then delete_back (nat (- runes)) b else delete_forward (nat runes) b)"

section \<open>Text operations of the editor\<close>

definition invalidate :: "Editor \<Rightarrow> Editor" where
  "invalidate e = e\<lparr>valid := False\<rparr>"

definition Len_ed :: "Editor \<Rightarrow> int" where
  "Len_ed e = rr_len (rr e)"

definition Text :: "Editor \<Rightarrow> string" where
  "Text e = rr_String (rr e)"

definition prepend :: "Editor \<Rightarrow> string \<Rightarrow> panic + Editor" where
  "prepend e s =
     then_do (rr_prepend (rr e) s) (\<lambda>b. Inr (invalidate (e\<lparr>rr := b, carXOff := 0\<rparr>)))"

definition SetText :: "Editor \<Rightarrow> string \<Rightarrow> panic + Editor" where
  "SetText e s = prepend (e\<lparr>rr := \<lparr>text_b = [], caret = 0, changed = False\<rparr>, carXOff := 0\<rparr>) s"

text \<open>\<open>strings.ReplaceAll(s, "\n", "")\<close>: every byte 0x0A is dropped.\<close>

definition ReplaceAll_newline :: "string \<Rightarrow> string" where
  "ReplaceAll_newline s = filter (\<lambda>c. c \<noteq> CHR 0x0A) s"

definition append_ed :: "Editor \<Rightarrow> string \<Rightarrow> panic + Editor" where
  "append_ed e s =
     (let s1 = (if SingleLine e then ReplaceAll_newline s else s)
      in then_do (prepend e s1)
           (\<lambda>e1. Inr (e1\<lparr>rr := (rr e1)\<lparr>caret := caret (rr e1) + int (length s1)\<rparr>\<rparr>)))"

definition Insert :: "Editor \<Rightarrow> string \<Rightarrow> panic + Editor" where
  "Insert e s = then_do (append_ed e s) (\<lambda>e1. Inr (invalidate (e1\<lparr>caretScroll := True\<rparr>)))"

definition Delete :: "Editor \<Rightarrow> int \<Rightarrow> panic + Editor" where
  "Delete e runes =
     then_do (deleteRunes (rr e) runes) (\<lambda>b. Inr (invalidate (e\<lparr>rr := b, carXOff := 0\<rparr>)))"

definition Move :: "Editor \<Rightarrow> int \<Rightarrow> panic + Editor" where
  "Move e distance = then_do (rr_move (rr e) distance) (\<lambda>b. Inr (e\<lparr>rr := b, carXOff := 0\<rparr>))"

section \<open>Locating the caret\<close>

text \<open>The inner loop of \<open>layoutCaret\<close> over the glyphs of the chosen line: it stops at the
  glyph whose byte index is the caret; \<open>idx\<close> advances by the encoded length of each rune.\<close>

fun caretGlyphs :: "Glyph list \<Rightarrow> int \<Rightarrow> int \<Rightarrow> Int26_6 \<Rightarrow> int \<Rightarrow> Int26_6 \<times> int" where
  "caretGlyphs [] car idx x carCol = (x, carCol)"
| "caretGlyphs (g # gs) car idx x carCol =
     (if idx = car then (x, carCol)
      else caretGlyphs gs car (idx + RuneLen (Rune g)) (x + Advance g) (carCol + 1))"

text \<open>The outer loop over the lines. The remaining lines are the argument; the line at
  hand is the last one when no line follows it.\<close>

fun caretLines :: "Line list \<Rightarrow> int \<Rightarrow> int \<Rightarrow> int \<Rightarrow> Int26_6 \<Rightarrow> int
    \<Rightarrow> int \<times> int \<times> Int26_6 \<times> int" where
  "caretLines [] car carLine idx prevDesc y = (carLine, 0, 0, y)"
| "caretLines (l # ls) car carLine idx prevDesc y =
     (let y1 = y + Ceil (prevDesc + Ascent l)
      in if ls = [] \<or> idx + int (length (Layout l)) > car
         then (let (x, carCol) = caretGlyphs (Layout l) car idx 0 0 in (carLine, carCol, x, y1))
         else caretLines ls car (carLine + 1) (idx + Len l) (Descent l) y1)"

definition layoutCaret :: "align_fn \<Rightarrow> Editor \<Rightarrow> panic + (int \<times> int \<times> Int26_6 \<times> int)" where
  "layoutCaret align e =
     (let (carLine, carCol, x, y) = caretLines (lines e) (caret (rr e)) 0 0 0 0
      in if 0 \<le> carLine \<and> carLine < int (length (lines e))
         then Inr (carLine, carCol,
                   x + align (Alignment e) (Width (lines e ! nat carLine)) (X (viewSize e)), y)
         else Inl IndexOutOfRange)"

definition CaretPos :: "align_fn \<Rightarrow> Editor \<Rightarrow> panic + (int \<times> int)" where
  "CaretPos align e = then_do (layoutCaret align e) (\<lambda>(line, col, x, y). Inr (line, col))"

definition CaretCoords :: "align_fn \<Rightarrow> Editor \<Rightarrow> panic + (Int26_6 \<times> int)" where
  "CaretCoords align e = then_do (layoutCaret align e) (\<lambda>(line, col, x, y). Inr (x, y))"

section \<open>Scrolling to the caret and laying out\<close>

definition scrollToCaret :: "align_fn \<Rightarrow> Editor \<Rightarrow> panic + Editor" where
  "scrollToCaret align e =
     then_do (layoutCaret align e)
       (\<lambda>(carLine, carCol, x, y).
          let l = lines e ! nat carLine in
          if SingleLine e then
            (let d1 = Floor x - X (scrollOff e);
                 d2 = Ceil x - (X (scrollOff e) + X (viewSize e));
                 dist = (if d1 < 0 then d1 else if d2 > 0 then d2 else 0)
             in Inr (scrollRel align e dist 0))
          else
            (let miny = y - Ceil (Ascent l);
                 maxy = y + Ceil (Descent l);
                 d1 = miny - Y (scrollOff e);
                 d2 = maxy - (Y (scrollOff e) + Y (viewSize e));
                 dist = (if d1 < 0 then d1 else if d2 > 0 then d2 else 0)
             in Inr (scrollRel align e 0 dist)))"

text \<open>\<open>layout.Constraints\<close> of the toolkit and its \<open>Constrain\<close>: each coordinate of a size
  is raised to the minimum and lowered to the maximum of its axis.\<close>

record Constraint =
  Min_c :: int
  Max_c :: int

record Constraints =
  Width_c :: Constraint
  Height_c :: Constraint

definition Constrain1 :: "Constraint \<Rightarrow> int \<Rightarrow> int" where
  "Constrain1 c v = (if v < Min_c c then Min_c c else if v > Max_c c then Max_c c else v)"

definition Constrain :: "Constraints \<Rightarrow> Point \<Rightarrow> Point" where
  "Constrain cs sz = \<lparr>X = Constrain1 (Width_c cs) (X sz), Y = Constrain1 (Height_c cs) (Y sz)\<rparr>"

text \<open>The loop of \<open>layoutText\<close> over all lines but the last: the first non-empty line that
  does not end in a newline rune makes the text as wide as \<open>maxWidth\<close>.\<close>

fun softWrapped :: "Line list \<Rightarrow> bool" where
  "softWrapped [] = False"
| "softWrapped (l # ls) =
     (if Layout l \<noteq> [] \<and> Rune (last (Layout l)) \<noteq> 0x0A then True else softWrapped ls)"

text \<open>\<open>layoutText\<close>. The lines the shaper lays out for the current text are the parameter
  \<open>shaped\<close>; the function \<open>linesDimens\<close> is declared outside the sources and is the
  parameter \<open>linesDimens\<close>.\<close>

definition layoutText :: "(Line list \<Rightarrow> Dimensions) \<Rightarrow> Line list \<Rightarrow> Editor
    \<Rightarrow> Line list \<times> Dimensions" where
  "layoutText linesDimens shaped e =
     (let d = linesDimens shaped
      in (shaped, if softWrapped (butlast shaped)
                  then d\<lparr>Size := (Size d)\<lparr>X := maxWidth e\<rparr>\<rparr> else d))"

definition makeValid :: "(Line list \<Rightarrow> Dimensions) \<Rightarrow> Line list \<Rightarrow> Editor \<Rightarrow> Editor" where
  "makeValid linesDimens shaped e =
     (if \<not> valid e
      then (let (ls, d) = layoutText linesDimens shaped e in e\<lparr>lines := ls, dims := d, valid := True\<rparr>)
      else e)"

text \<open>\<open>layout\<close>, up to the point where the scroll position is final. The statements that
  follow build the drawing operations, register the input handlers and decide whether the
  caret blinks; they do not change the text, the lines, the view size or the scroll
  position.\<close>

definition layout :: "align_fn \<Rightarrow> (Line list \<Rightarrow> Dimensions) \<Rightarrow> Line list \<Rightarrow> Constraints
    \<Rightarrow> Editor \<Rightarrow> panic + Editor" where
  "layout align linesDimens shaped cs e =
     (let e1 = makeValid linesDimens shaped e;
          e2 = e1\<lparr>viewSize := Constrain cs (Size (dims e1))\<rparr>;
          e3 = scrollRel align e2 0 0
      in then_do (if caretScroll e3 then scrollToCaret align (e3\<lparr>caretScroll := False\<rparr>)
                  else Inr e3)
           (\<lambda>e4. Inr (e4\<lparr>requestFocus := False\<rparr>)))"

section \<open>Moving the caret\<close>

text \<open>The loops that step the caret back over \<open>carCol\<close> runes (\<open>i\<close> from \<open>carCol - 1\<close> down
  to 0), and forward over the runes of a run of glyphs.\<close>

fun backRunes :: "nat \<Rightarrow> editBuffer \<Rightarrow> panic + editBuffer" where
  "backRunes 0 b = Inr b"
| "backRunes (Suc n) b =
     then_do (runeBefore b (caret b)) (\<lambda>s. backRunes n (b\<lparr>caret := caret b - s\<rparr>))"

fun forwardRunes :: "Glyph list \<Rightarrow> Int26_6 \<Rightarrow> editBuffer \<Rightarrow> panic + (Int26_6 \<times> editBuffer)" where
  "forwardRunes [] x b = Inr (x, b)"
| "forwardRunes (g # gs) x b =
     then_do (runeAt b (caret b)) (\<lambda>s. forwardRunes gs (x + Advance g) (b\<lparr>caret := caret b + s\<rparr>))"

text \<open>The last loop of \<open>moveToLine\<close>: advance over the glyphs of the target line while
  that brings the horizontal position closer to \<open>carX\<close>.\<close>

fun closestRune :: "Glyph list \<Rightarrow> Int26_6 \<Rightarrow> Int26_6 \<Rightarrow> editBuffer
    \<Rightarrow> panic + (Int26_6 \<times> editBuffer)" where
  "closestRune [] carX carX2 b = Inr (carX2, b)"
| "closestRune (g # gs) carX carX2 b =
     (if carX2 \<ge> carX then Inr (carX2, b)
      else if carX2 + Advance g - carX \<ge> carX - carX2 then Inr (carX2, b)
      else then_do (runeAt b (caret b))
             (\<lambda>s. closestRune gs carX (carX2 + Advance g) (b\<lparr>caret := caret b + s\<rparr>)))"

text \<open>The sum of \<open>Len\<close> over the lines with index from \<open>i\<close> up to, not including, \<open>j\<close>.\<close>

definition lensBetween :: "Line list \<Rightarrow> int \<Rightarrow> int \<Rightarrow> int" where
  "lensBetween ls i j = sum_list (map Len (drop (nat i) (take (nat j) ls)))"

definition moveToLine :: "align_fn \<Rightarrow> Editor \<Rightarrow> Int26_6 \<Rightarrow> int \<Rightarrow> panic + (Editor \<times> Int26_6)" where
  "moveToLine align e carX carLine2 =
     then_do (layoutCaret align e)
       (\<lambda>(carLine, carCol, x, y).
          let n = int (length (lines e));
              t0 = (if carLine2 < 0 then 0 else carLine2);
              t = (if t0 \<ge> n then n - 1 else t0)
          in then_do (backRunes (nat carCol) (rr e))
               (\<lambda>b1.
                  let b2 = (if t \<noteq> carLine
                            then (if t > carLine
                                  then b1\<lparr>caret := caret b1 + lensBetween (lines e) carLine t\<rparr>
                                  else b1\<lparr>caret := caret b1 - lensBetween (lines e) t carLine\<rparr>)
                            else b1);
                      l2 = lines e ! nat t;
                      carX2 = align (Alignment e) (Width l2) (X (viewSize e));
                      end = (if t < n - 1 then 1 else 0)
                  in then_do (closestRune (take (nat (int (length (Layout l2)) - end)) (Layout l2))
                                carX carX2 b2)
                       (\<lambda>(carX3, b3). Inr (e\<lparr>rr := b3\<rparr>, carX - carX3))))"

text \<open>The loop of \<open>moveCoord\<close>: the index of the first line whose bottom edge reaches the
  vertical position \<open>py\<close>, or the number of lines.\<close>

fun coordLine :: "Line list \<Rightarrow> int \<Rightarrow> Int26_6 \<Rightarrow> int \<Rightarrow> int \<Rightarrow> int" where
  "coordLine [] py prevDesc y carLine = carLine"
| "coordLine (l # ls) py prevDesc y carLine =
     (let y1 = y + Ceil (prevDesc + Ascent l)
      in if y1 + Ceil (Descent l) \<ge> py then carLine
         else coordLine ls py (Descent l) y1 (carLine + 1))"

definition moveCoord :: "align_fn \<Rightarrow> Editor \<Rightarrow> Point \<Rightarrow> panic + Editor" where
  "moveCoord align e pos =
     (let carLine = coordLine (lines e) (Y pos + Y (scrollOff e)) 0 0 0;
          x = fixed_I (X pos + X (scrollOff e))
      in then_do (moveToLine align e x carLine) (\<lambda>(e1, r). Inr e1))"

text \<open>The loop of \<open>movePages\<close> over the lines after the first.\<close>

fun pageLine :: "Line list \<Rightarrow> int \<Rightarrow> Int26_6 \<Rightarrow> int \<Rightarrow> int \<Rightarrow> int" where
  "pageLine [] y prevDesc y2 carLine2 = carLine2"
| "pageLine (l # ls) y prevDesc y2 carLine2 =
     (if y2 \<ge> y then carLine2
      else (let h = Ceil (prevDesc + Ascent l)
            in if y2 + h - y \<ge> y - y2 then carLine2
               else pageLine ls y (Descent l) (y2 + h) (carLine2 + 1)))"

definition movePages :: "align_fn \<Rightarrow> Editor \<Rightarrow> int \<Rightarrow> panic + Editor" where
  "movePages align e pages =
     then_do (layoutCaret align e)
       (\<lambda>(carLine, carCol, carX, carY).
          let y = carY + pages * Y (viewSize e);
              carLine2 = pageLine (tl (lines e)) y 0 (Ceil (Ascent (hd (lines e)))) 0
          in then_do (moveToLine align e (carX + carXOff e) carLine2)
               (\<lambda>(e1, r). Inr (e1\<lparr>carXOff := r\<rparr>)))"

definition moveStart :: "align_fn \<Rightarrow> Editor \<Rightarrow> panic + Editor" where
  "moveStart align e =
     then_do (layoutCaret align e)
       (\<lambda>(carLine, carCol, x, y).
          let lay = Layout (lines e ! nat carLine)
          in then_do (backRunes (nat carCol) (rr e))
               (\<lambda>b. Inr (e\<lparr>rr := b,
                            carXOff := - (x - sum_list (map Advance (take (nat carCol) lay)))\<rparr>)))"

definition moveEnd :: "align_fn \<Rightarrow> Editor \<Rightarrow> panic + Editor" where
  "moveEnd align e =
     then_do (layoutCaret align e)
       (\<lambda>(carLine, carCol, x, y).
          let l = lines e ! nat carLine;
              end = (if carLine < int (length (lines e)) - 1 then 1 else 0);
              lay = Layout l
          in then_do (forwardRunes (drop (nat carCol) (take (nat (int (length lay) - end)) lay))
                        x (rr e))
               (\<lambda>(x1, b).
                  let a = align (Alignment e) (Width l) (X (viewSize e))
                  in Inr (e\<lparr>rr := b, carXOff := Width l + a - x1\<rparr>)))"

section \<open>Key events\<close>

text \<open>The key names \<open>command\<close> distinguishes, the Shift modifier of \<open>key.Modifiers\<close>, and
  the three kinds of event the key queue delivers.\<close>

datatype key_Name =
    NameReturn | NameEnter | NameDeleteBackward | NameDeleteForward
  | NameUpArrow | NameDownArrow | NameLeftArrow | NameRightArrow
  | NamePageUp | NamePageDown | NameHome | NameEnd | NameOther string

datatype key_Modifier = ModCommand | ModShift

record key_Event =
  Name :: key_Name
  Modifiers :: "key_Modifier set"

datatype key_queue_event = FocusEvent bool | KeyEvent key_Event | EditEvent string

definition Contain :: "key_Modifier set \<Rightarrow> key_Modifier \<Rightarrow> bool" where
  "Contain ms m = (m \<in> ms)"

text \<open>The body shared by the cases \<open>NameUpArrow\<close> and \<open>NameDownArrow\<close> of \<open>command\<close>, which
  differ in the line offset \<open>d\<close> only.\<close>

definition moveLineBy :: "align_fn \<Rightarrow> Editor \<Rightarrow> int \<Rightarrow> panic + Editor" where
  "moveLineBy align e d =
     then_do (layoutCaret align e)
       (\<lambda>(line, col, carX, y).
          then_do (moveToLine align e (carX + carXOff e) (line + d))
            (\<lambda>(e1, r). Inr (e1\<lparr>carXOff := r\<rparr>)))"

definition command :: "align_fn \<Rightarrow> Editor \<Rightarrow> key_Event \<Rightarrow> panic + (Editor \<times> bool)" where
  "command align e k =
     (let done = (\<lambda>r. then_do r (\<lambda>e1. Inr (e1, True)))
      in case Name k of
           NameReturn \<Rightarrow> done (append_ed e [CHR 0x0A])
         | NameEnter \<Rightarrow> done (append_ed e [CHR 0x0A])
         | NameDeleteBackward \<Rightarrow> done (Delete e (- 1))
         | NameDeleteForward \<Rightarrow> done (Delete e 1)
         | NameUpArrow \<Rightarrow> done (moveLineBy align e (- 1))
         | NameDownArrow \<Rightarrow> done (moveLineBy align e 1)
         | NameLeftArrow \<Rightarrow> done (Move e (- 1))
         | NameRightArrow \<Rightarrow> done (Move e 1)
         | NamePageUp \<Rightarrow> done (movePages align e (- 1))
         | NamePageDown \<Rightarrow> done (movePages align e 1)
         | NameHome \<Rightarrow> done (moveStart align e)
         | NameEnd \<Rightarrow> done (moveEnd align e)
         | NameOther _ \<Rightarrow> Inr (e, False))"

text \<open>The check that ends every round of the key loop: a changed buffer appends a
  \<open>ChangeEvent\<close>.\<close>

definition noteChange :: "Editor \<Rightarrow> Editor" where
  "noteChange e =
     (let (c, b) = Changed (rr e)
      in if c then e\<lparr>rr := b, events := events e @ [ChangeEvent]\<rparr> else e\<lparr>rr := b\<rparr>)"

text \<open>The loop of \<open>processKey\<close> over the key events of the frame, at the time \<open>now\<close>. The
  \<open>return\<close> after a \<open>SubmitEvent\<close> leaves the rest of the queue unprocessed.\<close>

fun keyLoop :: "align_fn \<Rightarrow> int \<Rightarrow> key_queue_event list \<Rightarrow> Editor \<Rightarrow> panic + Editor" where
  "keyLoop align now [] e = Inr e"
| "keyLoop align now (ke # kes) e =
     (let e0 = e\<lparr>blinkStart := now\<rparr>
      in case ke of
           FocusEvent f \<Rightarrow> keyLoop align now kes (noteChange (e0\<lparr>focused := f\<rparr>))
         | KeyEvent k \<Rightarrow>
             (if \<not> focused e0 then keyLoop align now kes (noteChange e0)
              else if Submit e0 \<and> (Name k = NameReturn \<or> Name k = NameEnter)
                      \<and> \<not> Contain (Modifiers k) ModShift
              then Inr (e0\<lparr>events := events e0 @ [SubmitEvent (Text e0)]\<rparr>)
              else then_do (command align e0 k)
                     (\<lambda>(e1, handled).
                        keyLoop align now kes
                          (noteChange (if handled then e1\<lparr>caretScroll := True\<rparr> else e1))))
         | EditEvent s \<Rightarrow>
             then_do (append_ed (e0\<lparr>caretScroll := True\<rparr>) s)
               (\<lambda>e1. keyLoop align now kes (noteChange e1)))"

definition processKey :: "align_fn \<Rightarrow> int \<Rightarrow> key_queue_event list \<Rightarrow> Editor \<Rightarrow> panic + Editor" where
  "processKey align now kes e = keyLoop align now kes (noteChange e)"

section \<open>The progress bar\<close>

text \<open>A colour is \<open>color.RGBA\<close>. The drawing operations are recorded in the order they are
  added: the rounded clip rectangle with the integers its \<open>float32\<close> coordinates and corner
  radius are converted from, and the call of \<open>Fill\<close>, a function declared outside the
  sources, with its arguments.\<close>

datatype RGBA = RGBA nat nat nat nat

datatype draw_op = ClipRect int int int | Fill RGBA int int

record ProgressBar =
  Height :: int
  BackgroundColor :: RGBA
  ProgressColor :: RGBA

text \<open>The operations on \<open>float64\<close> that \<open>value\<close> uses are not interpreted: they are the
  fields of a parameter, over any type \<open>'f\<close> of floating-point values.\<close>

record 'f float64_ops =
  f_div :: "'f \<Rightarrow> 'f \<Rightarrow> 'f"
  f_mul :: "'f \<Rightarrow> 'f \<Rightarrow> 'f"
  f_gt :: "'f \<Rightarrow> 'f \<Rightarrow> bool"
  f_const_100 :: "'f"
  f_of_int :: "int \<Rightarrow> 'f"
  f_to_int :: "'f \<Rightarrow> int"

text \<open>Go's integer quotient rounds towards zero, where \<open>div\<close> on \<open>int\<close> rounds down.\<close>

definition quo :: "int \<Rightarrow> int \<Rightarrow> int" where
  "quo a b = (if (a < 0) = (b < 0) then \<bar>a\<bar> div \<bar>b\<bar> else - (\<bar>a\<bar> div \<bar>b\<bar>))"

definition borderedRectangle :: "RGBA \<Rightarrow> int \<Rightarrow> int \<Rightarrow> draw_op list" where
  "borderedRectangle color x y = [ClipRect x y (quo y 5), Fill color x y]"

text \<open>\<open>track\<close>: the constant \<open>values.ProgressBarGray\<close> is declared outside the sources and is
  the parameter \<open>ProgressBarGray\<close>; \<open>wmax\<close> is \<open>gtx.Constraints.Width.Max\<close>.\<close>

definition track :: "RGBA \<Rightarrow> ProgressBar \<Rightarrow> int \<Rightarrow> draw_op list" where
  "track ProgressBarGray p wmax = borderedRectangle ProgressBarGray wmax (Height p)"

definition value_pb :: "'f float64_ops \<Rightarrow> ProgressBar \<Rightarrow> int \<Rightarrow> 'f \<Rightarrow> draw_op list" where
  "value_pb fl p wmax progress =
     (let w0 = f_mul fl (f_div fl progress (f_const_100 fl)) (f_of_int fl wmax);
          w1 = (if f_gt fl w0 (f_of_int fl wmax) then f_of_int fl wmax else w0)
      in borderedRectangle (ProgressColor p) (f_to_int fl w1) (Height p))"

text \<open>\<open>ProgressBar.Layout\<close>: the one stacked child draws the track, then the value.\<close>

definition Layout_pb :: "'f float64_ops \<Rightarrow> RGBA \<Rightarrow> ProgressBar \<Rightarrow> int \<Rightarrow> 'f \<Rightarrow> draw_op list" where
  "Layout_pb fl ProgressBarGray p wmax progress =
     track ProgressBarGray p wmax @ value_pb fl p wmax progress"

subsection \<open>The type \<open>float64\<close>\<close>

text \<open>Go's \<open>float64\<close> is the binary64 format of IEEE 754. Every finite value of it is an
  integer multiple of \<open>2 ^ (- 1074)\<close>, and a finite value is held as that integer: \<open>Fin v\<close>
  stands for \<open>v\<close> times \<open>2 ^ (- 1074)\<close>, so that \<open>one64\<close> stands for 1. The two zeros are the
  one value \<open>Fin 0\<close>: the sign of a zero shows only in a quotient by it, and \<open>value\<close>
  divides by 100. NaN is a single value.\<close>

datatype float64 = Fin int | PInf | NInf | NaN

definition one64 :: int where
  "one64 = 2 ^ 1074"

text \<open>\<open>bitlen n\<close> is the number of binary digits of \<open>n\<close>, and \<open>round_half_even n d\<close> the
  integer nearest to \<open>n / d\<close>, the even one of two that are equally near. For \<open>n\<close> not
  negative and \<open>d\<close> positive, \<open>round_pos n d\<close> is the \<open>float64\<close> nearest to \<open>n / d\<close>: a
  value of \<open>k\<close> binary digits, \<open>k\<close> at least 53, keeps its upper 53 digits, its quantum
  being \<open>2 ^ (k - 53)\<close>, and a smaller value, subnormal or of the first binade, has the
  quantum 1. \<open>round64\<close> rounds a quotient of either sign and gives an infinity from
  \<open>2 ^ 1024\<close> on.\<close>

function bitlen :: "int \<Rightarrow> nat" where
  "bitlen n = (if n \<le> 0 then 0 else Suc (bitlen (n div 2)))"
  by pat_completeness auto
termination
  by (relation "measure nat") auto

declare bitlen.simps [simp del]

definition round_half_even :: "int \<Rightarrow> int \<Rightarrow> int" where
  "round_half_even n d =
     (let f = n div d; r = n mod d
      in if 2 * r < d then f else if 2 * r > d then f + 1 else if even f then f else f + 1)"

definition round_pos :: "int \<Rightarrow> int \<Rightarrow> int" where
  "round_pos n d =
     (let j = bitlen (n div d) - 53
      in round_half_even n (d * 2 ^ j) * 2 ^ j)"

definition round64 :: "int \<Rightarrow> int \<Rightarrow> float64" where
  "round64 n d =
     (let v = (if n < 0 then - round_pos (- n) d else round_pos n d)
      in if v \<ge> one64 * 2 ^ 1024 then PInf
         else if v \<le> - (one64 * 2 ^ 1024) then NInf
         else Fin v)"

text \<open>The operations of the language. Product and quotient round the exact result, with
  the cases of IEEE 754 for infinities, NaN and a zero divisor; a comparison with NaN is
  false. \<open>float64(i)\<close> rounds an integer. \<open>int(x)\<close> truncates towards zero, \<open>int\<close> having
  64 bits; for a value that does not fit, an infinity or NaN the language leaves the result
  to the implementation, and it is what the parameter \<open>other\<close> gives.\<close>

fun f64_mul :: "float64 \<Rightarrow> float64 \<Rightarrow> float64" where
  "f64_mul NaN y = NaN"
| "f64_mul x NaN = NaN"
| "f64_mul (Fin a) (Fin b) = round64 (a * b) one64"
| "f64_mul (Fin a) PInf = (if a > 0 then PInf else if a < 0 then NInf else NaN)"
| "f64_mul (Fin a) NInf = (if a > 0 then NInf else if a < 0 then PInf else NaN)"
| "f64_mul PInf (Fin b) = (if b > 0 then PInf else if b < 0 then NInf else NaN)"
| "f64_mul NInf (Fin b) = (if b > 0 then NInf else if b < 0 then PInf else NaN)"
| "f64_mul PInf PInf = PInf"
| "f64_mul PInf NInf = NInf"
| "f64_mul NInf PInf = NInf"
| "f64_mul NInf NInf = PInf"

fun f64_div :: "float64 \<Rightarrow> float64 \<Rightarrow> float64" where
  "f64_div NaN y = NaN"
| "f64_div x NaN = NaN"
| "f64_div (Fin a) (Fin b) =
     (if b = 0 then (if a > 0 then PInf else if a < 0 then NInf else NaN)
      else if b > 0 then round64 (a * one64) b
      else round64 (- (a * one64)) (- b))"
| "f64_div (Fin a) PInf = Fin 0"
| "f64_div (Fin a) NInf = Fin 0"
| "f64_div PInf (Fin b) = (if b \<ge> 0 then PInf else NInf)"
| "f64_div NInf (Fin b) = (if b \<ge> 0 then NInf else PInf)"
| "f64_div PInf y = NaN"
| "f64_div NInf y = NaN"

fun f64_gt :: "float64 \<Rightarrow> float64 \<Rightarrow> bool" where
  "f64_gt NaN y = False"
| "f64_gt x NaN = False"
| "f64_gt (Fin a) (Fin b) = (b < a)"
| "f64_gt (Fin a) PInf = False"
| "f64_gt (Fin a) NInf = True"
| "f64_gt PInf PInf = False"
| "f64_gt PInf y = True"
| "f64_gt NInf y = False"

definition f64_of_int :: "int \<Rightarrow> float64" where
  "f64_of_int i = round64 (i * one64) 1"

definition f64_to_int :: "(float64 \<Rightarrow> int) \<Rightarrow> float64 \<Rightarrow> int" where
  "f64_to_int other x =
     (case x of
        Fin v \<Rightarrow> (let t = quo v one64
                  in if - (2 ^ 63) \<le> t \<and> t < 2 ^ 63 then t else other x)
      | _ \<Rightarrow> other x)"

text \<open>The operations that \<open>value\<close> uses, interpreted over this type.\<close>

definition float64_go :: "(float64 \<Rightarrow> int) \<Rightarrow> float64 float64_ops" where
  "float64_go other =
     \<lparr>f_div = f64_div, f_mul = f64_mul, f_gt = f64_gt, f_const_100 = Fin (100 * one64),
      f_of_int = f64_of_int, f_to_int = f64_to_int other\<rparr>"

section \<open>Predicates of the claims\<close>

text \<open>A value clamped to an interval the way \<open>scrollAbs\<close> clamps: inside the interval
  when the interval is not empty, at its lower end when the upper end lies below it.\<close>

definition clampedTo :: "int \<Rightarrow> int \<Rightarrow> int \<Rightarrow> bool" where
  "clampedTo lo hi v = (if lo \<le> hi then lo \<le> v \<and> v \<le> hi else v = lo)"

definition scrollOffWithin :: "align_fn \<Rightarrow> Editor \<Rightarrow> bool" where
  "scrollOffWithin align e =
     (clampedTo (X (Min_pt (scrollBounds align e))) (X (Max_pt (scrollBounds align e)))
        (X (scrollOff e)) \<and>
      clampedTo (Y (Min_pt (scrollBounds align e))) (Y (Max_pt (scrollBounds align e)))
        (Y (scrollOff e)))"

text \<open>The byte offset at which line \<open>i\<close> of a layout begins, the byte offsets at which the
  glyphs of a line begin, the number of glyphs of line \<open>i\<close> that begin before the caret, and
  whether the caret lies on line \<open>i\<close> (the end of the text belongs to the last line).\<close>

definition lineStart :: "Line list \<Rightarrow> nat \<Rightarrow> int" where
  "lineStart ls i = sum_list (map Len (take i ls))"

fun glyphStarts :: "Glyph list \<Rightarrow> int \<Rightarrow> int list" where
  "glyphStarts [] idx = []"
| "glyphStarts (g # gs) idx = idx # glyphStarts gs (idx + RuneLen (Rune g))"

definition glyphsBeforeCaret :: "Line list \<Rightarrow> nat \<Rightarrow> int \<Rightarrow> int" where
  "glyphsBeforeCaret ls i car =
     int (length (filter (\<lambda>s. s < car) (glyphStarts (Layout (ls ! i)) (lineStart ls i))))"

definition caretOnLine :: "Line list \<Rightarrow> nat \<Rightarrow> int \<Rightarrow> bool" where
  "caretOnLine ls i car =
     (lineStart ls i \<le> car \<and>
      (if Suc i = length ls then car \<le> lineStart ls (Suc i) else car < lineStart ls (Suc i)))"

text \<open>The width of the completed-progress rectangle in \<open>float64\<close> arithmetic: the
  quotient of the progress by 100, rounded, times the maximum width, rounded, replaced by
  the maximum width when it is greater, and converted to \<open>int\<close>. A value is representable
  when rounding leaves it as it is: it is a multiple of its quantum.\<close>

definition valueWidth :: "(float64 \<Rightarrow> int) \<Rightarrow> int \<Rightarrow> float64 \<Rightarrow> int" where
  "valueWidth other wmax progress =
     (let m = f64_of_int wmax;
          w = f64_mul (f64_div progress (Fin (100 * one64))) m
      in f64_to_int other (if f64_gt w m then m else w))"

definition representable :: "int \<Rightarrow> bool" where
  "representable c = (2 ^ (bitlen c - 53) dvd c)"

section \<open>Example states\<close>

text \<open>An alignment function that starts every line at the left edge, the lines of the text
  of the three runes U+00E9, newline, \<open>a\<close> with glyphs ten pixels wide, and a multi-line
  editor holding that text with the caret behind its first rune.\<close>

definition align_left :: align_fn where
  "align_left a w m = 0"

definition line_e_acute :: Line where
  "line_e_acute = \<lparr>Layout = [\<lparr>Rune = 0xE9, Advance = 640\<rparr>, \<lparr>Rune = 0x0A, Advance = 0\<rparr>],
                    Len = 3, Width = 640, Ascent = 640, Descent = 192\<rparr>"

definition line_a :: Line where
  "line_a = \<lparr>Layout = [\<lparr>Rune = 0x61, Advance = 640\<rparr>],
              Len = 1, Width = 640, Ascent = 640, Descent = 192\<rparr>"

definition ed_two_lines :: Editor where
  "ed_two_lines =
     \<lparr>Alignment = Start, SingleLine = False, Submit = False, blinkStart = 0, focused = True,
      rr = \<lparr>text_b = [CHR 0xC3, CHR 0xA9, CHR 0x0A, CHR 0x61], caret = 2, changed = False\<rparr>,
      maxWidth = 100, viewSize = \<lparr>X = 100, Y = 26\<rparr>, valid = True,
      lines = [line_e_acute, line_a],
      dims = \<lparr>Size = \<lparr>X = 10, Y = 26\<rparr>, Baseline = 16\<rparr>,
      requestFocus = False, caretScroll = False, carXOff = 0,
      scrollOff = \<lparr>X = 0, Y = 0\<rparr>, events = []\<rparr>"

text \<open>The same editor in a view of 40 rows, taller than the text, and, with the caret at
  the end of the text, in a view of 13 rows, the height of one line.\<close>

definition ed_tall_view :: Editor where
  "ed_tall_view = ed_two_lines\<lparr>viewSize := \<lparr>X = 100, Y = 40\<rparr>\<rparr>"

definition ed_low_view :: Editor where
  "ed_low_view = ed_two_lines\<lparr>rr := (rr ed_two_lines)\<lparr>caret := 4\<rparr>,
                                viewSize := \<lparr>X = 100, Y = 13\<rparr>, caretScroll := True\<rparr>"

text \<open>Constraints of at most 12 columns and 13 rows, and the dimensions of the example
  text as a constant function.\<close>

definition cs_small :: Constraints where
  "cs_small = \<lparr>Width_c = \<lparr>Min_c = 0, Max_c = 12\<rparr>, Height_c = \<lparr>Min_c = 0, Max_c = 13\<rparr>\<rparr>"

definition dims_10_26 :: "Line list \<Rightarrow> Dimensions" where
  "dims_10_26 ls = \<lparr>Size = \<lparr>X = 10, Y = 26\<rparr>, Baseline = 16\<rparr>"

text \<open>A single-line editor with \<open>Submit\<close> set, holding the text \<open>ab\<close> of width 19.5
  pixels with the caret at its end, a line feed between two letters, and constraints that
  leave no width.\<close>

definition line_ab :: Line where
  "line_ab = \<lparr>Layout = [\<lparr>Rune = 0x61, Advance = 640\<rparr>, \<lparr>Rune = 0x62, Advance = 608\<rparr>],
               Len = 2, Width = 1248, Ascent = 640, Descent = 192\<rparr>"

definition ed_single :: Editor where
  "ed_single =
     \<lparr>Alignment = Start, SingleLine = True, Submit = True, blinkStart = 0, focused = True,
      rr = \<lparr>text_b = ''ab'', caret = 2, changed = False\<rparr>,
      maxWidth = 1000000, viewSize = \<lparr>X = 50, Y = 13\<rparr>, valid = True,
      lines = [line_ab],
      dims = \<lparr>Size = \<lparr>X = 20, Y = 13\<rparr>, Baseline = 3\<rparr>,
      requestFocus = False, caretScroll = True, carXOff = 0,
      scrollOff = \<lparr>X = 0, Y = 0\<rparr>, events = []\<rparr>"

definition x_newline_y :: string where
  "x_newline_y = [CHR ''x'', CHR 0x0A, CHR ''y'']"



text \<open>The Return key alone and with Shift held.\<close>

definition key_return :: key_Event where
  "key_return = \<lparr>Name = NameReturn, Modifiers = {}\<rparr>"

definition key_shift_return :: key_Event where
  "key_shift_return = \<lparr>Name = NameReturn, Modifiers = {ModShift}\<rparr>"

text \<open>A layout of single-byte runes: every glyph's rune encodes in one byte and every
  line is as many bytes long as it has glyphs. An editor whose text is ASCII and laid out
  so, with the caret inside the text.\<close>

definition singleByteLines :: "Line list \<Rightarrow> bool" where
  "singleByteLines ls =
     list_all (\<lambda>l. Len l = int (length (Layout l)) \<and>
                    list_all (\<lambda>g. RuneLen (Rune g) = 1) (Layout l)) ls"

definition asciiLaidOut :: "Editor \<Rightarrow> bool" where
  "asciiLaidOut e =
     (singleByteLines (lines e) \<and> lines e \<noteq> [] \<and>
      list_all (\<lambda>c. of_char c < (0x80::nat)) (text_b (rr e)) \<and>
      rr_len (rr e) = sum_list (map Len (lines e)) \<and>
      0 \<le> caret (rr e) \<and> caret (rr e) \<le> rr_len (rr e))"

text \<open>A requested line index clamped into the lines of a layout, the horizontal position
  in front of glyph \<open>j\<close> of line \<open>t\<close> (behind the last glyph for \<open>j\<close> the number of
  glyphs), and the number of glyphs of line \<open>t\<close> the caret may pass: all of them on the last
  line, all but the last one on any other line.\<close>

definition clampLine :: "Line list \<Rightarrow> int \<Rightarrow> nat" where
  "clampLine ls i = nat (if i < 0 then 0 else if i \<ge> int (length ls) then int (length ls) - 1 else i)"

definition runePos :: "align_fn \<Rightarrow> Editor \<Rightarrow> nat \<Rightarrow> nat \<Rightarrow> Int26_6" where
  "runePos align e t j =
     align (Alignment e) (Width (lines e ! t)) (X (viewSize e))
       + sum_list (map Advance (take j (Layout (lines e ! t))))"

definition lastStop :: "Line list \<Rightarrow> nat \<Rightarrow> nat" where
  "lastStop ls t = length (Layout (ls ! t)) - (if Suc t < length ls then 1 else 0)"

definition advancesNonNegative :: "Line list \<Rightarrow> bool" where
  "advancesNonNegative ls = list_all (\<lambda>l. list_all (\<lambda>g. 0 \<le> Advance g) (Layout l)) ls"

text \<open>The bottom edges of the lines of a layout, in pixel rows: the baseline of each line,
  accumulated as \<open>moveCoord\<close> accumulates it, plus the line's descent.\<close>

fun lineBottoms :: "Line list \<Rightarrow> Int26_6 \<Rightarrow> int \<Rightarrow> int list" where
  "lineBottoms [] prevDesc y = []"
| "lineBottoms (l # ls) prevDesc y =
     (y + Ceil (prevDesc + Ascent l) + Ceil (Descent l))
       # lineBottoms ls (Descent l) (y + Ceil (prevDesc + Ascent l))"

text \<open>The index of the first line whose bottom edge is at or below the row \<open>py\<close>, or the
  number of lines when there is none.\<close>

definition firstLineAtOrBelow :: "Line list \<Rightarrow> int \<Rightarrow> nat" where
  "firstLineAtOrBelow ls py = length (takeWhile (\<lambda>b. b < py) (lineBottoms ls 0 0))"

text \<open>A conversion that gives 0 where the language leaves the result of \<open>int(x)\<close> open, a
  progress bar ten rows high, and a colour for the track.\<close>

definition to_int_zero :: "float64 \<Rightarrow> int" where
  "to_int_zero x = 0"

definition bar_example :: ProgressBar where
  "bar_example = \<lparr>Height = 10, BackgroundColor = RGBA 1 2 3 255, ProgressColor = RGBA 0 200 0 255\<rparr>"

definition gray_example :: RGBA where
  "gray_example = RGBA 9 9 9 255"

section \<open>Properties of scrolling\<close>

lemma scrollBounds_scrollOff [simp]:
  "scrollBounds align (e\<lparr>scrollOff := p\<rparr>) = scrollBounds align e"
  by (simp add: scrollBounds_def split: list.splits)

lemma scrollAbs_scrollOff:
  "scrollAbs align e x y =
     e\<lparr>scrollOff :=
         \<lparr>X = (let b = scrollBounds align e; x1 = (if x > X (Max_pt b) then X (Max_pt b) else x)
               in if x1 < X (Min_pt b) then X (Min_pt b) else x1),
          Y = (let b = scrollBounds align e; y1 = (if y > Y (Max_pt b) then Y (Max_pt b) else y)
               in if y1 < Y (Min_pt b) then Y (Min_pt b) else y1)\<rparr>\<rparr>"
  by (simp add: scrollAbs_def Let_def)

lemma scrollAbs_within: "scrollOffWithin align (scrollAbs align e x y)"
  by (simp add: scrollAbs_scrollOff scrollOffWithin_def clampedTo_def Let_def)

lemma scrollRel_within: "scrollOffWithin align (scrollRel align e dx dy)"
  by (simp add: scrollRel_def scrollAbs_within)

lemma scrollToCaret_within:
  "scrollToCaret align e = Inr e1 \<Longrightarrow> scrollOffWithin align e1"
  by (auto simp: scrollToCaret_def then_do_def Let_def scrollRel_within
           split: sum.splits prod.splits if_splits)

lemma scrollOffWithin_requestFocus [simp]:
  "scrollOffWithin align (e\<lparr>requestFocus := r\<rparr>) = scrollOffWithin align e"
  by (simp add: scrollOffWithin_def scrollBounds_def split: list.splits)

lemma layout_within:
  "layout align ld sh cs e = Inr e2 \<Longrightarrow> scrollOffWithin align e2"
  by (auto simp: layout_def then_do_def Let_def scrollRel_within
           split: sum.splits if_splits dest: scrollToCaret_within)

text \<open>
  Claim C1, as amended. After \<open>scrollAbs\<close> and \<open>scrollRel\<close>, and after the adjustments made
  by \<open>scrollToCaret\<close> and by \<open>layout\<close> whenever they return, the scroll offset is clamped to
  the rectangle \<open>b\<close> of \<open>scrollBounds\<close> on each axis: it is never below \<open>b.Min\<close>; it is at most
  \<open>b.Max\<close> when \<open>b.Min \<le> b.Max\<close>; and it equals \<open>b.Min\<close> when \<open>b.Max < b.Min\<close>, which is the
  case when the view is larger than the text.
\<close>

theorem scroll_offset_clamped:
  "scrollOffWithin align (scrollAbs align e x y) \<and>
   scrollOffWithin align (scrollRel align e dx dy) \<and>
   (scrollToCaret align e = Inr e1 \<longrightarrow> scrollOffWithin align e1) \<and>
   (layout align ld sh cs e = Inr e2 \<longrightarrow> scrollOffWithin align e2)"
  using scrollAbs_within scrollRel_within scrollToCaret_within layout_within by blast

theorem scroll_offset_clamped_witness:
  "scrollToCaret align_left ed_low_view = Inr (ed_low_view\<lparr>scrollOff := \<lparr>X = 0, Y = 13\<rparr>\<rparr>) \<and>
   layout align_left dims_10_26 [line_e_acute, line_a] cs_small ed_low_view
     = Inr (ed_low_view\<lparr>viewSize := \<lparr>X = 10, Y = 13\<rparr>, scrollOff := \<lparr>X = 0, Y = 13\<rparr>,
                         caretScroll := False\<rparr>) \<and>
   Y (Min_pt (scrollBounds align_left ed_low_view)) \<le> Y (Max_pt (scrollBounds align_left ed_low_view)) \<and>
   scrollOffWithin align_left (ed_low_view\<lparr>scrollOff := \<lparr>X = 0, Y = 13\<rparr>\<rparr>) \<and>
   scrollOffWithin align_left
     (ed_low_view\<lparr>viewSize := \<lparr>X = 10, Y = 13\<rparr>, scrollOff := \<lparr>X = 0, Y = 13\<rparr>,
                   caretScroll := False\<rparr>)"
proof -
  have a: "scrollToCaret align_left ed_low_view = Inr (ed_low_view\<lparr>scrollOff := \<lparr>X = 0, Y = 13\<rparr>\<rparr>)"
    by code_simp
  have b: "layout align_left dims_10_26 [line_e_acute, line_a] cs_small ed_low_view
     = Inr (ed_low_view\<lparr>viewSize := \<lparr>X = 10, Y = 13\<rparr>, scrollOff := \<lparr>X = 0, Y = 13\<rparr>,
                         caretScroll := False\<rparr>)"
    by code_simp
  have c: "Y (Min_pt (scrollBounds align_left ed_low_view))
             \<le> Y (Max_pt (scrollBounds align_left ed_low_view))"
    by code_simp
  from a b c scroll_offset_clamped [of align_left ed_low_view 0 0 0 0
      "ed_low_view\<lparr>scrollOff := \<lparr>X = 0, Y = 13\<rparr>\<rparr>" dims_10_26 "[line_e_acute, line_a]" cs_small
      "ed_low_view\<lparr>viewSize := \<lparr>X = 10, Y = 13\<rparr>, scrollOff := \<lparr>X = 0, Y = 13\<rparr>,
                    caretScroll := False\<rparr>"]
  show ?thesis by blast
qed

text \<open>In a view of 40 rows over a text of 26 rows the upper bound of the vertical scroll
  range is \<open>- 14\<close>, and \<open>scrollAbs\<close> leaves the offset at 0, above that bound.\<close>

theorem scroll_offset_above_max:
  "Y (Max_pt (scrollBounds align_left (scrollAbs align_left ed_tall_view 0 0))) = - 14 \<and>
   Y (scrollOff (scrollAbs align_left ed_tall_view 0 0)) = 0 \<and>
   \<not> (Y (scrollOff (scrollAbs align_left ed_tall_view 0 0))
        \<le> Y (Max_pt (scrollBounds align_left (scrollAbs align_left ed_tall_view 0 0))))"
  by code_simp

section \<open>Properties of the progress bar\<close>

text \<open>
  Claim C8. The track is drawn with the colour \<open>values.ProgressBarGray\<close>: two progress bars
  that differ only in the field \<open>BackgroundColor\<close> produce the same drawing operations for
  every maximum width and every progress value, and the track's operations are the clip
  rectangle and the fill in that constant colour.
\<close>

theorem track_ignores_BackgroundColor:
  "Layout_pb fl gray (p\<lparr>BackgroundColor := c\<rparr>) wmax progress = Layout_pb fl gray p wmax progress \<and>
   track gray p wmax = [ClipRect wmax (Height p) (quo (Height p) 5), Fill gray wmax (Height p)]"
  by (simp add: Layout_pb_def track_def value_pb_def borderedRectangle_def Let_def)

section \<open>Properties of the text operations\<close>

text \<open>
  Claim C7. After \<open>SetText(s)\<close>, which always returns, \<open>Text()\<close> is exactly \<open>s\<close>, \<open>Len()\<close> is
  the byte length of \<open>s\<close> and \<open>carXOff\<close> is 0, for every editor whatever its \<open>SingleLine\<close>
  field, which \<open>SetText\<close> leaves as it is.
\<close>

theorem SetText_then_Text:
  "\<exists>e1. SetText e s = Inr e1 \<and> Text e1 = s \<and> Len_ed e1 = int (length s) \<and> carXOff e1 = 0
         \<and> SingleLine e1 = SingleLine e"
  by (simp add: SetText_def prepend_def rr_prepend_def rr_len_def then_do_def Text_def
        rr_String_def Len_ed_def invalidate_def)

lemma count_newline_strip: "count_list (ReplaceAll_newline s) (CHR 0x0A) = 0"
  by (simp add: ReplaceAll_newline_def)

lemma count_list_take_drop: "count_list (take n xs) c + count_list (drop n xs) c = count_list xs c"
  by (metis append_take_drop_id count_list_append)

lemma append_ed_SingleLine:
  assumes "SingleLine e" "0 \<le> caret (rr e)" "caret (rr e) \<le> Len_ed e"
  shows "append_ed e s =
     Inr (e\<lparr>rr := \<lparr>text_b = take (nat (caret (rr e))) (Text e) @ ReplaceAll_newline s
                              @ drop (nat (caret (rr e))) (Text e),
                    caret = caret (rr e) + int (length (ReplaceAll_newline s)),
                    changed = (changed (rr e) \<or> ReplaceAll_newline s \<noteq> [])\<rparr>,
            carXOff := 0, valid := False\<rparr>)"
  using assms
  by (simp add: append_ed_def prepend_def rr_prepend_def then_do_def Text_def rr_String_def
        Len_ed_def invalidate_def Let_def)

text \<open>
  Claim C10. In an editor with \<open>SingleLine\<close> set and the caret inside the text, \<open>Insert(s)\<close>
  returns, and so does the key loop on an edit event carrying \<open>s\<close>; both put \<open>s\<close> with
  every line feed removed at the caret and advance the caret by the byte length of the
  stripped string. The inserted bytes contain no line feed, and the text holds as many
  line feeds afterwards as before.
\<close>

theorem Insert_SingleLine_strips_newlines:
  assumes "SingleLine e" and "0 \<le> caret (rr e)" and "caret (rr e) \<le> Len_ed e"
  shows "\<exists>e1 e2. Insert e s = Inr e1 \<and> keyLoop align now [EditEvent s] e = Inr e2 \<and>
           Text e1 = take (nat (caret (rr e))) (Text e) @ ReplaceAll_newline s
                       @ drop (nat (caret (rr e))) (Text e) \<and>
           Text e2 = Text e1 \<and>
           caret (rr e1) = caret (rr e) + int (length (ReplaceAll_newline s)) \<and>
           caret (rr e2) = caret (rr e1) \<and>
           CHR 0x0A \<notin> set (ReplaceAll_newline s) \<and>
           count_list (Text e1) (CHR 0x0A) = count_list (Text e) (CHR 0x0A)"
proof -
  let ?e0 = "e\<lparr>blinkStart := now, caretScroll := True\<rparr>"
  let ?r = "\<lparr>text_b = take (nat (caret (rr e))) (Text e) @ ReplaceAll_newline s
                       @ drop (nat (caret (rr e))) (Text e),
             caret = caret (rr e) + int (length (ReplaceAll_newline s)),
             changed = (changed (rr e) \<or> ReplaceAll_newline s \<noteq> [])\<rparr>"
  have a: "append_ed e s = Inr (e\<lparr>rr := ?r, carXOff := 0, valid := False\<rparr>)"
    by (rule append_ed_SingleLine [OF assms])
  have b: "append_ed ?e0 s = Inr (?e0\<lparr>rr := ?r, carXOff := 0, valid := False\<rparr>)"
    using append_ed_SingleLine [of ?e0 s] assms by (simp add: Text_def Len_ed_def)
  have c: "count_list (take (nat (caret (rr e))) (Text e) @ ReplaceAll_newline s
                       @ drop (nat (caret (rr e))) (Text e)) (CHR 0x0A)
             = count_list (Text e) (CHR 0x0A)"
    using count_list_take_drop [of "nat (caret (rr e))" "Text e" "CHR 0x0A"]
    by (simp add: count_newline_strip)
  show ?thesis
    using c
    by (simp add: Insert_def a b then_do_def invalidate_def Text_def rr_String_def noteChange_def
          Changed_def ReplaceAll_newline_def Let_def)
qed

theorem Insert_SingleLine_strips_newlines_witness:
  "SingleLine ed_single \<and> 0 \<le> caret (rr ed_single) \<and> caret (rr ed_single) \<le> Len_ed ed_single \<and>
   (\<exists>e1 e2. Insert ed_single x_newline_y = Inr e1 \<and>
            keyLoop align_left 7 [EditEvent x_newline_y] ed_single = Inr e2 \<and>
            Text e1 = ''abxy'' \<and> Text e2 = Text e1 \<and> caret (rr e1) = 4 \<and>
            caret (rr e2) = caret (rr e1))"
proof -
  have h1: "SingleLine ed_single" by (simp add: ed_single_def)
  have h2: "0 \<le> caret (rr ed_single)" by (simp add: ed_single_def)
  have h3: "caret (rr ed_single) \<le> Len_ed ed_single"
    by (simp add: ed_single_def Len_ed_def rr_len_def)
  have t: "take (nat (caret (rr ed_single))) (Text ed_single) @ ReplaceAll_newline x_newline_y
             @ drop (nat (caret (rr ed_single))) (Text ed_single) = ''abxy''"
    by (simp add: ed_single_def Text_def rr_String_def ReplaceAll_newline_def x_newline_y_def)
  have n: "caret (rr ed_single) + int (length (ReplaceAll_newline x_newline_y)) = 4"
    by (simp add: ed_single_def ReplaceAll_newline_def x_newline_y_def)
  from Insert_SingleLine_strips_newlines [OF h1 h2 h3, of x_newline_y align_left 7]
  show ?thesis unfolding t n using h1 h2 h3 by blast
qed

section \<open>Scrolling the caret into view\<close>


lemma layoutCaret_scrollOff [simp]:
  "layoutCaret align (e\<lparr>scrollOff := p\<rparr>) = layoutCaret align e"
  by (auto simp: layoutCaret_def split: prod.splits)

lemma layoutCaret_requestFocus [simp]:
  "layoutCaret align (e\<lparr>requestFocus := r\<rparr>) = layoutCaret align e"
  by (auto simp: layoutCaret_def split: prod.splits)

lemma layoutCaret_caretScroll [simp]:
  "layoutCaret align (e\<lparr>caretScroll := r\<rparr>) = layoutCaret align e"
  by (auto simp: layoutCaret_def split: prod.splits)

lemma scrollBounds_requestFocus [simp]:
  "scrollBounds align (e\<lparr>requestFocus := r\<rparr>) = scrollBounds align e"
  by (simp add: scrollBounds_def split: list.splits)

lemma scrollBounds_caretScroll [simp]:
  "scrollBounds align (e\<lparr>caretScroll := r\<rparr>) = scrollBounds align e"
  by (simp add: scrollBounds_def split: list.splits)

lemma scrollRel_scrollOff:
  "scrollRel align e dx dy =
     e\<lparr>scrollOff :=
         \<lparr>X = (let b = scrollBounds align e; x = X (scrollOff e) + dx;
                   x1 = (if x > X (Max_pt b) then X (Max_pt b) else x)
               in if x1 < X (Min_pt b) then X (Min_pt b) else x1),
          Y = (let b = scrollBounds align e; y = Y (scrollOff e) + dy;
                   y1 = (if y > Y (Max_pt b) then Y (Max_pt b) else y)
               in if y1 < Y (Min_pt b) then Y (Min_pt b) else y1)\<rparr>\<rparr>"
  by (simp add: scrollRel_def scrollAbs_scrollOff Let_def)





lemma makeValid_caretScroll [simp]: "caretScroll (makeValid ld sh e) = caretScroll e"
  by (simp add: makeValid_def layoutText_def Let_def)


text \<open>\<open>Insert\<close> sets \<open>caretScroll\<close>, and so does the key loop for an edit event and for a
  key that \<open>command\<close> handles.\<close>

lemma Insert_sets_caretScroll: "Insert e s = Inr e1 \<Longrightarrow> caretScroll e1"
  by (auto simp: Insert_def then_do_def invalidate_def split: sum.splits)




section \<open>Properties of the key loop\<close>

lemma noteChange_eq:
  "noteChange e = e\<lparr>rr := (rr e)\<lparr>changed := False\<rparr>,
                    events := (if changed (rr e) then events e @ [ChangeEvent] else events e)\<rparr>"
  by (simp add: noteChange_def Changed_def)

text \<open>
  Claim C9, as amended. In a focused editor, a Return or Enter key event without Shift,
  when \<open>Submit\<close> is set, appends a \<open>SubmitEvent\<close> carrying the whole text, changes nothing
  else but the blink time, and ends the loop whatever events follow. With Shift held, or
  with \<open>Submit\<close> not set, and the caret inside the text, the key inserts a line feed at the
  caret and appends a \<open>ChangeEvent\<close> when \<open>SingleLine\<close> is not set; when \<open>SingleLine\<close> is
  set the text and the caret stay as they are. In both cases the loop goes on with the
  events that follow.
\<close>

theorem Return_key_submits_or_inserts:
  assumes "focused e" and "Name k = NameReturn \<or> Name k = NameEnter"
  shows
   "(Submit e \<and> \<not> Contain (Modifiers k) ModShift \<longrightarrow>
       keyLoop align now (KeyEvent k # kes) e
         = Inr (e\<lparr>blinkStart := now, events := events e @ [SubmitEvent (Text e)]\<rparr>)) \<and>
    ((\<not> Submit e \<or> Contain (Modifiers k) ModShift) \<and> \<not> SingleLine e \<and>
      0 \<le> caret (rr e) \<and> caret (rr e) \<le> Len_ed e \<longrightarrow>
       keyLoop align now (KeyEvent k # kes) e
         = keyLoop align now kes
             (e\<lparr>blinkStart := now, carXOff := 0, valid := False, caretScroll := True,
                rr := (rr e)\<lparr>text_b := take (nat (caret (rr e))) (Text e) @ [CHR 0x0A]
                                          @ drop (nat (caret (rr e))) (Text e),
                              caret := caret (rr e) + 1, changed := False\<rparr>,
                events := events e @ [ChangeEvent]\<rparr>)) \<and>
    ((\<not> Submit e \<or> Contain (Modifiers k) ModShift) \<and> SingleLine e \<and>
      0 \<le> caret (rr e) \<and> caret (rr e) \<le> Len_ed e \<longrightarrow>
       keyLoop align now (KeyEvent k # kes) e
         = keyLoop align now kes
             (e\<lparr>blinkStart := now, carXOff := 0, valid := False, caretScroll := True,
                rr := (rr e)\<lparr>changed := False\<rparr>,
                events := (if changed (rr e) then events e @ [ChangeEvent] else events e)\<rparr>))"
  using assms
  by (auto simp: command_def append_ed_def prepend_def rr_prepend_def then_do_def Text_def
        rr_String_def Len_ed_def rr_len_def invalidate_def Let_def noteChange_eq
        ReplaceAll_newline_def)

theorem Return_key_submits_or_inserts_witness:
  "focused ed_single \<and> Submit ed_single \<and> \<not> Contain (Modifiers key_return) ModShift \<and>
   keyLoop align_left 7 [KeyEvent key_return, EditEvent ''c''] ed_single
     = Inr (ed_single\<lparr>blinkStart := 7, events := [SubmitEvent ''ab'']\<rparr>) \<and>
   focused ed_two_lines \<and> \<not> Submit ed_two_lines \<and> \<not> SingleLine ed_two_lines \<and>
   keyLoop align_left 7 [KeyEvent key_return] ed_two_lines
     = Inr (ed_two_lines\<lparr>blinkStart := 7, carXOff := 0, valid := False, caretScroll := True,
              rr := \<lparr>text_b = [CHR 0xC3, CHR 0xA9, CHR 0x0A, CHR 0x0A, CHR 0x61], caret = 3,
                     changed = False\<rparr>,
              events := [ChangeEvent]\<rparr>)"
proof -
  have a: "focused ed_single" "Name key_return = NameReturn \<or> Name key_return = NameEnter"
    "Submit ed_single \<and> \<not> Contain (Modifiers key_return) ModShift"
    by (simp_all add: ed_single_def key_return_def Contain_def)
  have a': "ed_single\<lparr>blinkStart := 7, events := events ed_single @ [SubmitEvent (Text ed_single)]\<rparr>
            = ed_single\<lparr>blinkStart := 7, events := [SubmitEvent ''ab'']\<rparr>"
    by (simp add: ed_single_def Text_def rr_String_def)
  have b: "focused ed_two_lines"
    "(\<not> Submit ed_two_lines \<or> Contain (Modifiers key_return) ModShift) \<and> \<not> SingleLine ed_two_lines \<and>
      0 \<le> caret (rr ed_two_lines) \<and> caret (rr ed_two_lines) \<le> Len_ed ed_two_lines"
    by (simp_all add: ed_two_lines_def Len_ed_def rr_len_def)
  have b': "ed_two_lines\<lparr>blinkStart := 7, carXOff := 0, valid := False, caretScroll := True,
                rr := (rr ed_two_lines)\<lparr>text_b := take (nat (caret (rr ed_two_lines))) (Text ed_two_lines)
                                          @ [CHR 0x0A]
                                          @ drop (nat (caret (rr ed_two_lines))) (Text ed_two_lines),
                              caret := caret (rr ed_two_lines) + 1, changed := False\<rparr>,
                events := events ed_two_lines @ [ChangeEvent]\<rparr>
           = ed_two_lines\<lparr>blinkStart := 7, carXOff := 0, valid := False, caretScroll := True,
              rr := \<lparr>text_b = [CHR 0xC3, CHR 0xA9, CHR 0x0A, CHR 0x0A, CHR 0x61], caret = 3,
                     changed = False\<rparr>,
              events := [ChangeEvent]\<rparr>"
    by (simp add: ed_two_lines_def Text_def rr_String_def)
  from Return_key_submits_or_inserts [OF a(1,2), of align_left 7 "[EditEvent ''c'']"] a(3)
  have c1: "keyLoop align_left 7 [KeyEvent key_return, EditEvent ''c''] ed_single
     = Inr (ed_single\<lparr>blinkStart := 7, events := [SubmitEvent ''ab'']\<rparr>)"
    unfolding a' by blast
  from Return_key_submits_or_inserts [OF b(1) a(2), of align_left 7 "[]"] b(2)
  have c2: "keyLoop align_left 7 [KeyEvent key_return] ed_two_lines
     = Inr (ed_two_lines\<lparr>blinkStart := 7, carXOff := 0, valid := False, caretScroll := True,
              rr := \<lparr>text_b = [CHR 0xC3, CHR 0xA9, CHR 0x0A, CHR 0x0A, CHR 0x61], caret = 3,
                     changed = False\<rparr>,
              events := [ChangeEvent]\<rparr>)"
    unfolding b' by simp
  from a b c1 c2 show ?thesis by blast
qed

text \<open>In the single-line editor with \<open>Submit\<close> set, Return with Shift held inserts no line
  feed and produces no event: the text is still \<open>ab\<close>.\<close>

theorem shift_return_single_line_inserts_nothing:
  "focused ed_single \<and> Submit ed_single \<and> SingleLine ed_single \<and>
   Contain (Modifiers key_shift_return) ModShift \<and>
   processKey align_left 7 [KeyEvent key_shift_return] ed_single
     = Inr (ed_single\<lparr>blinkStart := 7, valid := False\<rparr>) \<and>
   Text (ed_single\<lparr>blinkStart := 7, valid := False\<rparr>) = ''ab'' \<and>
   events (ed_single\<lparr>blinkStart := 7, valid := False\<rparr>) = []"
  by (simp add: processKey_def noteChange_eq command_def append_ed_def prepend_def
        rr_prepend_def then_do_def Text_def rr_String_def rr_len_def invalidate_def Let_def
        ReplaceAll_newline_def ed_single_def key_shift_return_def Contain_def)

section \<open>Properties of locating and moving the caret\<close>

text \<open>\<open>layoutCaret\<close> returns whenever there is a line, with a line index and a column inside
  the layout; on an editor without lines it indexes past the end.\<close>

lemma caretGlyphs_col:
  "caretGlyphs gs car idx x c = (x1, c1) \<Longrightarrow> c \<le> c1 \<and> c1 \<le> c + int (length gs)"
  by (induction gs arbitrary: idx x c) (fastforce split: if_splits)+

lemma caretLines_bounds:
  "ls \<noteq> [] \<Longrightarrow> caretLines ls car n idx pd y = (cl, cc, x, y1) \<Longrightarrow>
     n \<le> cl \<and> cl < n + int (length ls) \<and> 0 \<le> cc \<and>
     cc \<le> int (length (Layout (ls ! nat (cl - n))))"
proof (induction ls arbitrary: n idx pd y)
  case Nil
  then show ?case by simp
next
  case (Cons l ls)
  show ?case
  proof (cases "ls = [] \<or> idx + int (length (Layout l)) > car")
    case True
    with Cons.prems(2) obtain x0 where "caretGlyphs (Layout l) car idx 0 0 = (x0, cc)" "cl = n"
      by (auto simp: Let_def split: prod.splits)
    with caretGlyphs_col [of "Layout l" car idx 0 0 x0 cc] show ?thesis by simp
  next
    case False
    then have ne: "ls \<noteq> []" by simp
    from False Cons.prems(2)
    have "caretLines ls car (n + 1) (idx + Len l) (Descent l) (y + Ceil (pd + Ascent l))
            = (cl, cc, x, y1)"
      by (simp add: Let_def)
    from Cons.IH [OF ne this]
    have h: "n + 1 \<le> cl" "cl < n + 1 + int (length ls)" "0 \<le> cc"
      "cc \<le> int (length (Layout (ls ! nat (cl - (n + 1)))))" by auto
    have "nat (cl - n) = Suc (nat (cl - (n + 1)))" using h(1) by linarith
    then show ?thesis using h by simp
  qed
qed

lemma layoutCaret_returns:
  assumes "lines e \<noteq> []"
  shows "\<exists>cl cc x y. layoutCaret align e = Inr (cl, cc, x, y) \<and> 0 \<le> cl \<and>
           cl < int (length (lines e)) \<and> 0 \<le> cc \<and>
           cc \<le> int (length (Layout (lines e ! nat cl)))"
proof -
  obtain cl cc x y where c: "caretLines (lines e) (caret (rr e)) 0 0 0 0 = (cl, cc, x, y)"
    by (metis prod_cases4)
  from caretLines_bounds [OF assms c] show ?thesis
    by (simp add: layoutCaret_def c)
qed

lemma layoutCaret_no_lines: "lines e = [] \<Longrightarrow> layoutCaret align e = Inl IndexOutOfRange"
  by (simp add: layoutCaret_def)

text \<open>So \<open>CaretPos\<close>, \<open>CaretCoords\<close> and \<open>scrollToCaret\<close> return whenever there is a line, and
  \<open>layout\<close> returns whenever the editor has a line once its layout is valid.\<close>

lemma CaretPos_returns:
  "lines e \<noteq> [] \<Longrightarrow> \<exists>r. CaretPos align e = Inr r"
  using layoutCaret_returns [of e align] by (auto simp: CaretPos_def then_do_def)

lemma CaretCoords_returns:
  "lines e \<noteq> [] \<Longrightarrow> \<exists>r. CaretCoords align e = Inr r"
  using layoutCaret_returns [of e align] by (auto simp: CaretCoords_def then_do_def)

lemma scrollToCaret_returns:
  "lines e \<noteq> [] \<Longrightarrow> \<exists>e1. scrollToCaret align e = Inr e1"
  using layoutCaret_returns [of e align] by (auto simp: scrollToCaret_def then_do_def Let_def)

lemma layout_returns:
  assumes "lines (makeValid ld sh e) \<noteq> []"
  shows "\<exists>e2. layout align ld sh cs e = Inr e2"
proof -
  let ?e1 = "makeValid ld sh e"
  let ?e3 = "scrollRel align (?e1\<lparr>viewSize := Constrain cs (Size (dims ?e1))\<rparr>) 0 0"
  have "lines (?e3\<lparr>caretScroll := False\<rparr>) \<noteq> []"
    using assms by (simp add: scrollRel_scrollOff)
  from scrollToCaret_returns [OF this, of align]
  show ?thesis by (auto simp: layout_def Let_def then_do_def)
qed

subsection \<open>Text of single-byte runes\<close>

text \<open>On a layout of single-byte runes \<open>layoutCaret\<close> returns the line the caret is on and
  the number of glyphs in front of the caret.\<close>

lemma glyphStarts_ge:
  "list_all (\<lambda>g. RuneLen (Rune g) = 1) gs \<Longrightarrow> \<forall>s \<in> set (glyphStarts gs j). j \<le> s"
  by (induction gs arbitrary: j) force+

lemma caretGlyphs_single_byte:
  "list_all (\<lambda>g. RuneLen (Rune g) = 1) gs \<Longrightarrow> idx \<le> car \<Longrightarrow>
   caretGlyphs gs car idx x c = (x1, c1) \<Longrightarrow>
   c1 = c + int (length (filter (\<lambda>s. s < car) (glyphStarts gs idx)))"
proof (induction gs arbitrary: idx x c)
  case Nil
  then show ?case by simp
next
  case (Cons g gs)
  show ?case
  proof (cases "idx = car")
    case True
    have "filter (\<lambda>s. s < car) (glyphStarts gs (car + 1)) = []"
      using glyphStarts_ge [of gs "car + 1"] Cons.prems(1) by (auto simp: filter_empty_conv)
    with True Cons.prems show ?thesis by simp
  next
    case False
    with Cons.prems have lt: "idx < car" by simp
    from False Cons.prems
    have "caretGlyphs gs car (idx + 1) (x + Advance g) (c + 1) = (x1, c1)" by simp
    from Cons.IH [OF _ _ this] Cons.prems(1) lt
    have "c1 = c + 1 + int (length (filter (\<lambda>s. s < car) (glyphStarts gs (idx + 1))))" by simp
    with lt Cons.prems(1) show ?thesis by simp
  qed
qed

lemma caretLines_single_byte:
  assumes "singleByteLines ls" and "ls \<noteq> []" and "idx \<le> car"
    and "car \<le> idx + sum_list (map Len ls)"
    and "caretLines ls car k idx pd y = (cl, cc, x, y1)"
  shows "\<exists>i<length ls. cl = k + int i \<and>
           idx + sum_list (map Len (take i ls)) \<le> car \<and>
           (if Suc i = length ls then car \<le> idx + sum_list (map Len (take (Suc i) ls))
            else car < idx + sum_list (map Len (take (Suc i) ls))) \<and>
           cc = int (length (filter (\<lambda>s. s < car)
                       (glyphStarts (Layout (ls ! i)) (idx + sum_list (map Len (take i ls))))))"
  using assms
proof (induction ls arbitrary: k idx pd y)
  case Nil
  then show ?case by simp
next
  case (Cons l ls)
  have sb: "Len l = int (length (Layout l))" "list_all (\<lambda>g. RuneLen (Rune g) = 1) (Layout l)"
    "singleByteLines ls"
    using Cons.prems(1) by (simp_all add: singleByteLines_def)
  show ?case
  proof (cases "ls = [] \<or> idx + int (length (Layout l)) > car")
    case True
    with Cons.prems(5) obtain x0 where g: "caretGlyphs (Layout l) car idx 0 0 = (x0, cc)" and "cl = k"
      by (auto simp: Let_def split: prod.splits)
    from caretGlyphs_single_byte [OF sb(2) Cons.prems(3) g]
    have "cc = int (length (filter (\<lambda>s. s < car) (glyphStarts (Layout l) idx)))" by simp
    with True \<open>cl = k\<close> Cons.prems(3,4) sb(1) show ?thesis
      by (intro exI [of _ 0]) auto
  next
    case False
    then have ne: "ls \<noteq> []" and ge: "idx + Len l \<le> car" using sb(1) by auto
    from False Cons.prems(5)
    have c: "caretLines ls car (k + 1) (idx + Len l) (Descent l) (y + Ceil (pd + Ascent l))
            = (cl, cc, x, y1)"
      by (simp add: Let_def)
    have le: "car \<le> idx + Len l + sum_list (map Len ls)" using Cons.prems(4) by simp
    from Cons.IH [OF sb(3) ne ge le c] obtain i where i: "i < length ls" "cl = k + 1 + int i"
      "idx + Len l + sum_list (map Len (take i ls)) \<le> car"
      "(if Suc i = length ls then car \<le> idx + Len l + sum_list (map Len (take (Suc i) ls))
            else car < idx + Len l + sum_list (map Len (take (Suc i) ls)))"
      "cc = int (length (filter (\<lambda>s. s < car)
                       (glyphStarts (Layout (ls ! i)) (idx + Len l + sum_list (map Len (take i ls))))))"
      by blast
    show ?thesis
      using i by (intro exI [of _ "Suc i"]) (auto simp: add.assoc split: if_splits)
  qed
qed

lemma layoutCaret_single_byte:
  assumes "singleByteLines (lines e)" and "lines e \<noteq> []" and "0 \<le> caret (rr e)"
    and "caret (rr e) \<le> sum_list (map Len (lines e))"
  shows "\<exists>cl cc x y. layoutCaret align e = Inr (cl, cc, x, y) \<and> 0 \<le> cl \<and>
           cl < int (length (lines e)) \<and>
           caretOnLine (lines e) (nat cl) (caret (rr e)) \<and>
           cc = glyphsBeforeCaret (lines e) (nat cl) (caret (rr e))"
proof -
  obtain cl cc x y where c: "caretLines (lines e) (caret (rr e)) 0 0 0 0 = (cl, cc, x, y)"
    by (metis prod_cases4)
  have le: "caret (rr e) \<le> 0 + sum_list (map Len (lines e))" using assms(4) by simp
  from caretLines_single_byte [OF assms(1,2,3) le c]
  obtain i where i: "i < length (lines e)" "cl = 0 + int i"
    "0 + sum_list (map Len (take i (lines e))) \<le> caret (rr e)"
    "(if Suc i = length (lines e)
      then caret (rr e) \<le> 0 + sum_list (map Len (take (Suc i) (lines e)))
      else caret (rr e) < 0 + sum_list (map Len (take (Suc i) (lines e))))"
    "cc = int (length (filter (\<lambda>s. s < caret (rr e))
                 (glyphStarts (Layout (lines e ! i)) (0 + sum_list (map Len (take i (lines e)))))))"
    by blast
  have "cl = int i" "caretOnLine (lines e) i (caret (rr e))"
    "cc = glyphsBeforeCaret (lines e) i (caret (rr e))"
    using i assms(4)
    by (auto simp: caretOnLine_def glyphsBeforeCaret_def lineStart_def split: if_splits)
  with i(1)
  show ?thesis by (simp add: layoutCaret_def c)
qed

text \<open>In an ASCII text the rune before and the rune at a position are one byte long.\<close>

lemma runeBefore_ascii:
  assumes "list_all (\<lambda>c. of_char c < (0x80::nat)) (text_b b)" and "0 < idx" and "idx \<le> rr_len b"
  shows "runeBefore b idx = Inr 1"
proof -
  have n: "nat idx - 1 < length (text_b b)" "nat idx \<le> length (text_b b)" "0 < nat idx"
    using assms(2,3) by (auto simp: rr_len_def)
  have "of_char (text_b b ! (nat idx - 1)) < (0x80::nat)"
    using assms(1) n(1) by (simp add: list_all_length)
  then have "map of_char (take (nat idx) (text_b b)) ! (nat idx - 1) < (0x80::nat)"
    using n by simp
  moreover have "nat (int (length (take (nat idx) (text_b b))) - 1) = nat idx - 1"
    using n by simp
  ultimately show ?thesis
    using assms(2,3) n by (simp add: runeBefore_def DecodeLastRune_size_def Let_def min_def)
qed

lemma runeAt_ascii:
  assumes "list_all (\<lambda>c. of_char c < (0x80::nat)) (text_b b)" and "0 \<le> idx" and "idx < rr_len b"
  shows "runeAt b idx = Inr 1"
proof -
  have n: "nat idx < length (text_b b)" using assms(2,3) by (auto simp: rr_len_def)
  have a: "of_char (text_b b ! nat idx) < (0x80::nat)"
    using assms(1) n by (simp add: list_all_length)
  have "drop (nat idx) (text_b b) = text_b b ! nat idx # drop (Suc (nat idx)) (text_b b)"
    using n by (simp add: Cons_nth_drop_Suc)
  then show ?thesis
    using assms(2,3) a by (simp add: runeAt_def DecodeRune_size_def)
qed

lemma backRunes_ascii:
  "list_all (\<lambda>c. of_char c < (0x80::nat)) (text_b b) \<Longrightarrow> int n \<le> caret b \<Longrightarrow>
   caret b \<le> rr_len b \<Longrightarrow> backRunes n b = Inr (b\<lparr>caret := caret b - int n\<rparr>)"
proof (induction n arbitrary: b)
  case 0
  then show ?case by simp
next
  case (Suc n)
  have r: "runeBefore b (caret b) = Inr 1"
    using runeBefore_ascii [OF Suc.prems(1), of "caret b"] Suc.prems(2,3) by simp
  have "backRunes n (b\<lparr>caret := caret b - 1\<rparr>) = Inr (b\<lparr>caret := caret b - 1, caret := caret b - 1 - int n\<rparr>)"
    using Suc.IH [of "b\<lparr>caret := caret b - 1\<rparr>"] Suc.prems by (simp add: rr_len_def)
  then show ?case by (simp add: r then_do_def algebra_simps)
qed

lemma sum_take_nonneg:
  "list_all (\<lambda>g. 0 \<le> Advance g) gs \<Longrightarrow> 0 \<le> sum_list (map Advance (take j gs))"
  by (induction gs arbitrary: j) (auto simp: take_Cons' )

lemma closestRune_ascii:
  assumes "list_all (\<lambda>c. of_char c < (0x80::nat)) (text_b b)" and "0 \<le> caret b"
    and "caret b + int (length gs) \<le> rr_len b" and "list_all (\<lambda>g. 0 \<le> Advance g) gs"
  shows "\<exists>k\<le>length gs.
           closestRune gs carX p b
             = Inr (p + sum_list (map Advance (take k gs)), b\<lparr>caret := caret b + int k\<rparr>) \<and>
           (\<forall>j\<le>length gs. \<bar>carX - (p + sum_list (map Advance (take k gs)))\<bar>
                             \<le> \<bar>carX - (p + sum_list (map Advance (take j gs)))\<bar>)"
  using assms
proof (induction gs arbitrary: p b)
  case Nil
  then show ?case by simp
next
  case (Cons g gs)
  have adv: "0 \<le> Advance g" and nn: "list_all (\<lambda>g. 0 \<le> Advance g) gs"
    using Cons.prems(4) by simp_all
  have pos: "\<And>j. 0 \<le> sum_list (map Advance (take j gs))"
    using sum_take_nonneg [OF nn] by simp
  have tk: "\<And>j. sum_list (map Advance (take j (g # gs)))
              = (if j = 0 then 0 else Advance g + sum_list (map Advance (take (j - 1) gs)))"
    by (simp add: take_Cons')
  show ?case
  proof (cases "p \<ge> carX \<or> p + Advance g - carX \<ge> carX - p")
    case True
    have "\<forall>j\<le>length (g # gs). \<bar>carX - p\<bar> \<le> \<bar>carX - (p + sum_list (map Advance (take j (g # gs))))\<bar>"
    proof (intro allI impI)
      fix j
      show "\<bar>carX - p\<bar> \<le> \<bar>carX - (p + sum_list (map Advance (take j (g # gs))))\<bar>"
        using True adv pos [of "j - 1"] by (auto simp: tk)
    qed
    with True show ?thesis
      by (intro exI [of _ 0]) auto
  next
    case False
    then have lt: "p < carX" "p + Advance g - carX < carX - p" by auto
    have r: "runeAt b (caret b) = Inr 1"
      using runeAt_ascii [OF Cons.prems(1,2)] Cons.prems(3) by simp
    let ?b = "b\<lparr>caret := caret b + 1\<rparr>"
    have "\<exists>k\<le>length gs.
           closestRune gs carX (p + Advance g) ?b
             = Inr (p + Advance g + sum_list (map Advance (take k gs)), ?b\<lparr>caret := caret ?b + int k\<rparr>) \<and>
           (\<forall>j\<le>length gs. \<bar>carX - (p + Advance g + sum_list (map Advance (take k gs)))\<bar>
                             \<le> \<bar>carX - (p + Advance g + sum_list (map Advance (take j gs)))\<bar>)"
      using Cons.IH [of ?b "p + Advance g"] Cons.prems nn by (simp add: rr_len_def)
    then obtain k where k: "k \<le> length gs"
      "closestRune gs carX (p + Advance g) ?b
             = Inr (p + Advance g + sum_list (map Advance (take k gs)), ?b\<lparr>caret := caret ?b + int k\<rparr>)"
      "\<forall>j\<le>length gs. \<bar>carX - (p + Advance g + sum_list (map Advance (take k gs)))\<bar>
                             \<le> \<bar>carX - (p + Advance g + sum_list (map Advance (take j gs)))\<bar>"
      by blast
    have c0: "\<bar>carX - (p + Advance g + sum_list (map Advance (take k gs)))\<bar> \<le> \<bar>carX - p\<bar>"
      using k(3) [rule_format, of 0] lt adv by simp
    have cl: "\<forall>j\<le>length (g # gs).
             \<bar>carX - (p + sum_list (map Advance (take (Suc k) (g # gs))))\<bar>
               \<le> \<bar>carX - (p + sum_list (map Advance (take j (g # gs))))\<bar>"
    proof (intro allI impI)
      fix j assume j: "j \<le> length (g # gs)"
      show "\<bar>carX - (p + sum_list (map Advance (take (Suc k) (g # gs))))\<bar>
               \<le> \<bar>carX - (p + sum_list (map Advance (take j (g # gs))))\<bar>"
      proof (cases j)
        case 0
        then show ?thesis using c0 by (simp add: add.assoc)
      next
        case (Suc j')
        then show ?thesis using k(3) [rule_format, of j'] j by (simp add: add.assoc)
      qed
    qed
    have "closestRune (g # gs) carX p b
            = Inr (p + sum_list (map Advance (take (Suc k) (g # gs))), b\<lparr>caret := caret b + int (Suc k)\<rparr>)"
      using lt r k(2) by (simp add: then_do_def add.assoc)
    with k(1) cl show ?thesis
      by (intro exI [of _ "Suc k"]) simp
  qed
qed

lemma glyphStarts_count:
  "list_all (\<lambda>g. RuneLen (Rune g) = 1) gs \<Longrightarrow> s \<le> car \<Longrightarrow> car \<le> s + int (length gs) \<Longrightarrow>
   int (length (filter (\<lambda>x. x < car) (glyphStarts gs s))) = car - s"
proof (induction gs arbitrary: s)
  case Nil
  then show ?case by simp
next
  case (Cons g gs)
  show ?case
  proof (cases "s = car")
    case True
    have "filter (\<lambda>x. x < car) (glyphStarts gs (car + 1)) = []"
      using glyphStarts_ge [of gs "car + 1"] Cons.prems(1) by (auto simp: filter_empty_conv)
    with True Cons.prems(1) show ?thesis by simp
  next
    case False
    with Cons.prems have "s < car" by simp
    with Cons.IH [of "s + 1"] Cons.prems show ?thesis by simp
  qed
qed

lemma lineStart_Suc: "i < length ls \<Longrightarrow> lineStart ls (Suc i) = lineStart ls i + Len (ls ! i)"
  by (simp add: lineStart_def take_Suc_conv_app_nth)

lemma singleByteLines_nth:
  "singleByteLines ls \<Longrightarrow> i < length ls \<Longrightarrow>
   Len (ls ! i) = int (length (Layout (ls ! i))) \<and> list_all (\<lambda>g. RuneLen (Rune g) = 1) (Layout (ls ! i))"
  by (simp add: singleByteLines_def list_all_length)

lemma singleByteLines_sum_nonneg: "singleByteLines ls \<Longrightarrow> 0 \<le> sum_list (map Len ls)"
  by (induction ls) (auto simp: singleByteLines_def)

lemma singleByteLines_take: "singleByteLines ls \<Longrightarrow> singleByteLines (take i ls)"
  unfolding singleByteLines_def list_all_iff by (meson in_set_takeD)

lemma singleByteLines_drop: "singleByteLines ls \<Longrightarrow> singleByteLines (drop i ls)"
  unfolding singleByteLines_def list_all_iff by (meson in_set_dropD)

lemma lineStart_nonneg: "singleByteLines ls \<Longrightarrow> 0 \<le> lineStart ls i"
  unfolding lineStart_def by (rule singleByteLines_sum_nonneg [OF singleByteLines_take])

lemma lineStart_le_total:
  assumes "singleByteLines ls"
  shows "lineStart ls i \<le> sum_list (map Len ls)"
proof -
  have "sum_list (map Len ls) = lineStart ls i + sum_list (map Len (drop i ls))"
    unfolding lineStart_def by (metis append_take_drop_id map_append sum_list_append)
  with singleByteLines_sum_nonneg [OF singleByteLines_drop [OF assms], of i] show ?thesis by simp
qed

lemma lensBetween_lineStart:
  assumes "i \<le> j"
  shows "lensBetween ls (int i) (int j) = lineStart ls j - lineStart ls i"
proof -
  have "take j ls = take i ls @ drop i (take j ls)"
    using assms by (metis append_take_drop_id min.absorb1 take_take)
  then have "sum_list (map Len (take j ls))
               = sum_list (map Len (take i ls)) + sum_list (map Len (drop i (take j ls)))"
    by (metis map_append sum_list_append)
  then show ?thesis by (simp add: lensBetween_def lineStart_def)
qed

lemma caret_column_single_byte:
  assumes "singleByteLines ls" and "i < length ls" and "caretOnLine ls i car"
  shows "glyphsBeforeCaret ls i car = car - lineStart ls i"
proof -
  from singleByteLines_nth [OF assms(1,2)]
  have l: "Len (ls ! i) = int (length (Layout (ls ! i)))"
    and r: "list_all (\<lambda>g. RuneLen (Rune g) = 1) (Layout (ls ! i))" by simp_all
  have "lineStart ls i \<le> car" "car \<le> lineStart ls i + int (length (Layout (ls ! i)))"
    using assms(3) lineStart_Suc [OF assms(2)] l
    by (auto simp: caretOnLine_def split: if_splits)
  from glyphStarts_count [OF r this] show ?thesis by (simp add: glyphsBeforeCaret_def)
qed

text \<open>In an editor whose ASCII text is laid out in single-byte runes with advances that
  are not negative, \<open>moveToLine\<close> returns; it puts the caret on the clamped target line,
  behind \<open>k\<close> of the glyphs the caret may pass there, returns \<open>carX\<close> minus the horizontal
  position reached, and no position the caret may take on that line is closer to \<open>carX\<close>.\<close>

lemma clampLine_less: "ls \<noteq> [] \<Longrightarrow> clampLine ls i < length ls"
  by (cases ls) (auto simp: clampLine_def)

lemma lensBetween_same: "lensBetween ls i i = 0"
  by (simp add: lensBetween_def)

lemma moveToLine_unfold:
  assumes "layoutCaret align e = Inr (cl, cc, x, y)" and "backRunes (nat cc) (rr e) = Inr b1"
    and "lines e \<noteq> []"
  shows "moveToLine align e carX carLine2
     = then_do (closestRune (take (lastStop (lines e) (clampLine (lines e) carLine2))
                                 (Layout (lines e ! clampLine (lines e) carLine2)))
                  carX (runePos align e (clampLine (lines e) carLine2) 0)
                  (b1\<lparr>caret := caret b1 +
                         (if int (clampLine (lines e) carLine2) > cl
                          then lensBetween (lines e) cl (int (clampLine (lines e) carLine2))
                          else - lensBetween (lines e) (int (clampLine (lines e) carLine2)) cl)\<rparr>))
         (\<lambda>(carX3, b3). Inr (e\<lparr>rr := b3\<rparr>, carX - carX3))"
proof -
  have T: "(if (if carLine2 < 0 then 0 else carLine2) \<ge> int (length (lines e))
            then int (length (lines e)) - 1 else (if carLine2 < 0 then 0 else carLine2))
           = int (clampLine (lines e) carLine2)"
    using assms(3) by (cases "lines e") (auto simp: clampLine_def)
  have lt: "clampLine (lines e) carLine2 < length (lines e)"
    by (rule clampLine_less [OF assms(3)])
  have m: "nat (int (length (Layout (lines e ! clampLine (lines e) carLine2)))
                - (if int (clampLine (lines e) carLine2) < int (length (lines e)) - 1 then 1 else 0))
           = lastStop (lines e) (clampLine (lines e) carLine2)"
    by (auto simp: lastStop_def)
  show ?thesis
    unfolding moveToLine_def Let_def T assms(1) then_do_def
    using m by (simp add: assms(2) runePos_def lensBetween_same)
qed

lemma moveToLine_single_byte:
  assumes "asciiLaidOut e" and "advancesNonNegative (lines e)"
  shows "\<exists>k\<le>lastStop (lines e) (clampLine (lines e) carLine2).
           moveToLine align e carX carLine2
             = Inr (e\<lparr>rr := (rr e)\<lparr>caret := lineStart (lines e) (clampLine (lines e) carLine2)
                                                + int k\<rparr>\<rparr>,
                    carX - runePos align e (clampLine (lines e) carLine2) k) \<and>
           (\<forall>j\<le>lastStop (lines e) (clampLine (lines e) carLine2).
               \<bar>carX - runePos align e (clampLine (lines e) carLine2) k\<bar>
                 \<le> \<bar>carX - runePos align e (clampLine (lines e) carLine2) j\<bar>)"
proof -
  let ?ls = "lines e" and ?car = "caret (rr e)"
  let ?t = "clampLine (lines e) carLine2"
  let ?L = "Layout (lines e ! ?t)"
  let ?m = "lastStop (lines e) ?t"
  from assms(1) have sb: "singleByteLines ?ls" and ne: "?ls \<noteq> []"
    and asc: "list_all (\<lambda>c. of_char c < (0x80::nat)) (text_b (rr e))"
    and len: "rr_len (rr e) = sum_list (map Len ?ls)"
    and c0: "0 \<le> ?car" and c1: "?car \<le> rr_len (rr e)"
    by (simp_all add: asciiLaidOut_def)
  have c1': "?car \<le> sum_list (map Len ?ls)" using c1 len by simp
  from layoutCaret_single_byte [OF sb ne c0 c1', of align]
  obtain cl cc x y where lc: "layoutCaret align e = Inr (cl, cc, x, y)" and cl0: "0 \<le> cl"
    and cl1: "cl < int (length ?ls)" and onl: "caretOnLine ?ls (nat cl) ?car"
    and cc: "cc = glyphsBeforeCaret ?ls (nat cl) ?car" by blast
  have ncl: "nat cl < length ?ls" using cl0 cl1 by simp
  have cc': "cc = ?car - lineStart ?ls (nat cl)"
    using caret_column_single_byte [OF sb ncl onl] cc by simp
  have s_le: "lineStart ?ls (nat cl) \<le> ?car" using onl by (simp add: caretOnLine_def)
  have s_ge: "0 \<le> lineStart ?ls (nat cl)" by (rule lineStart_nonneg [OF sb])
  have br: "backRunes (nat cc) (rr e) = Inr ((rr e)\<lparr>caret := lineStart ?ls (nat cl)\<rparr>)"
    using backRunes_ascii [OF asc, of "nat cc"] c1 cc' s_le s_ge by simp
  have t: "?t < length ?ls" by (rule clampLine_less [OF ne])
  have mv: "caret ((rr e)\<lparr>caret := lineStart ?ls (nat cl)\<rparr>) +
              (if int ?t > cl then lensBetween ?ls cl (int ?t) else - lensBetween ?ls (int ?t) cl)
            = lineStart ?ls ?t"
  proof (cases "int ?t > cl")
    case True
    then have "nat cl \<le> ?t" by simp
    from lensBetween_lineStart [OF this, of ?ls] True cl0 show ?thesis by simp
  next
    case False
    then have "?t \<le> nat cl" by simp
    from lensBetween_lineStart [OF this, of ?ls] False cl0 show ?thesis by simp
  qed
  let ?b2 = "(rr e)\<lparr>caret := lineStart ?ls ?t\<rparr>"
  have b2: "(rr e)\<lparr>caret := lineStart ?ls (nat cl)\<rparr>
              \<lparr>caret := caret ((rr e)\<lparr>caret := lineStart ?ls (nat cl)\<rparr>) +
                 (if int ?t > cl then lensBetween ?ls cl (int ?t) else - lensBetween ?ls (int ?t) cl)\<rparr>
            = ?b2"
    unfolding mv by simp
  have unf: "moveToLine align e carX carLine2
     = then_do (closestRune (take ?m ?L) carX (runePos align e ?t 0) ?b2)
         (\<lambda>(carX3, b3). Inr (e\<lparr>rr := b3\<rparr>, carX - carX3))"
    using moveToLine_unfold [OF lc br ne, of carX carLine2] unfolding b2 .
  have mL: "?m \<le> length ?L" by (simp add: lastStop_def)
  have lenL: "Len (?ls ! ?t) = int (length ?L)" using singleByteLines_nth [OF sb t] by simp
  have "lineStart ?ls ?t + int (length ?L) \<le> sum_list (map Len ?ls)"
    using lineStart_Suc [OF t] lineStart_le_total [OF sb, of "Suc ?t"] lenL by simp
  then have room: "caret ?b2 + int (length (take ?m ?L)) \<le> rr_len ?b2"
    using mL len by (simp add: rr_len_def)
  have nn: "list_all (\<lambda>g. 0 \<le> Advance g) (take ?m ?L)"
  proof -
    have "list_all (\<lambda>g. 0 \<le> Advance g) ?L"
      using assms(2) t by (simp add: advancesNonNegative_def list_all_length)
    then show ?thesis unfolding list_all_iff by (meson in_set_takeD)
  qed
  have asc2: "list_all (\<lambda>c. of_char c < (0x80::nat)) (text_b ?b2)" using asc by simp
  have ge2: "0 \<le> caret ?b2" using lineStart_nonneg [OF sb, of ?t] by simp
  from closestRune_ascii [OF asc2 ge2 room nn, of carX "runePos align e ?t 0"]
  obtain k where k: "k \<le> length (take ?m ?L)"
    and cr: "closestRune (take ?m ?L) carX (runePos align e ?t 0) ?b2
              = Inr (runePos align e ?t 0 + sum_list (map Advance (take k (take ?m ?L))),
                     ?b2\<lparr>caret := caret ?b2 + int k\<rparr>)"
    and best: "\<forall>j\<le>length (take ?m ?L).
                \<bar>carX - (runePos align e ?t 0 + sum_list (map Advance (take k (take ?m ?L))))\<bar>
                  \<le> \<bar>carX - (runePos align e ?t 0 + sum_list (map Advance (take j (take ?m ?L))))\<bar>"
    by blast
  have km: "k \<le> ?m" using k mL by simp
  have pos: "\<And>j. j \<le> ?m \<Longrightarrow>
               runePos align e ?t 0 + sum_list (map Advance (take j (take ?m ?L))) = runePos align e ?t j"
    by (simp add: runePos_def min_def)
  have res: "moveToLine align e carX carLine2
             = Inr (e\<lparr>rr := (rr e)\<lparr>caret := lineStart ?ls ?t + int k\<rparr>\<rparr>, carX - runePos align e ?t k)"
    unfolding unf cr using pos [OF km] by (simp add: then_do_def)
  have "\<forall>j\<le>?m. \<bar>carX - runePos align e ?t k\<bar> \<le> \<bar>carX - runePos align e ?t j\<bar>"
  proof (intro allI impI)
    fix j assume j: "j \<le> ?m"
    then have "j \<le> length (take ?m ?L)" using mL by simp
    from best [rule_format, OF this] show "\<bar>carX - runePos align e ?t k\<bar> \<le> \<bar>carX - runePos align e ?t j\<bar>"
      using pos [OF km] pos [OF j] by simp
  qed
  with km res show ?thesis by blast
qed

text \<open>\<open>moveCoord\<close> passes to \<open>moveToLine\<close> the index of the first line whose bottom edge is
  at or below the pressed row, which the clamping turns into the last line when there is
  no such line; on ASCII text the caret lands on that line at the position closest to
  the pressed column.\<close>

lemma coordLine_takeWhile:
  "coordLine ls py pd y c = c + int (length (takeWhile (\<lambda>b. b < py) (lineBottoms ls pd y)))"
  by (induction ls arbitrary: pd y c) (auto simp: Let_def)

lemma coordLine_first: "coordLine ls py 0 0 0 = int (firstLineAtOrBelow ls py)"
  by (simp add: coordLine_takeWhile firstLineAtOrBelow_def)

lemma length_lineBottoms [simp]: "length (lineBottoms ls pd y) = length ls"
  by (induction ls arbitrary: pd y) auto

lemma firstLineAtOrBelow_spec:
  "firstLineAtOrBelow ls py \<le> length ls \<and>
   (\<forall>i<firstLineAtOrBelow ls py. lineBottoms ls 0 0 ! i < py) \<and>
   (firstLineAtOrBelow ls py < length ls \<longrightarrow> py \<le> lineBottoms ls 0 0 ! firstLineAtOrBelow ls py)"
proof -
  let ?bs = "lineBottoms ls 0 0" and ?P = "\<lambda>b. b < py"
  have a: "length (takeWhile ?P ?bs) \<le> length ls"
    using length_takeWhile_le [of ?P ?bs] by simp
  have b: "\<forall>i<length (takeWhile ?P ?bs). ?bs ! i < py"
    by (metis nth_mem set_takeWhileD takeWhile_nth)
  have c: "length (takeWhile ?P ?bs) < length ls \<longrightarrow> py \<le> ?bs ! length (takeWhile ?P ?bs)"
    using nth_length_takeWhile [of ?P ?bs] by (simp add: not_less)
  from a b c show ?thesis by (simp add: firstLineAtOrBelow_def)
qed

lemma clampLine_first:
  "ls \<noteq> [] \<Longrightarrow> clampLine ls (int (firstLineAtOrBelow ls py))
     = (if firstLineAtOrBelow ls py < length ls then firstLineAtOrBelow ls py else length ls - 1)"
  by (cases ls) (auto simp: clampLine_def)

lemma moveCoord_single_byte:
  assumes "asciiLaidOut e" and "advancesNonNegative (lines e)"
  shows "\<exists>k\<le>lastStop (lines e) (clampLine (lines e)
                   (int (firstLineAtOrBelow (lines e) (Y pos + Y (scrollOff e))))).
           moveCoord align e pos
             = Inr (e\<lparr>rr := (rr e)\<lparr>caret :=
                      lineStart (lines e) (clampLine (lines e)
                          (int (firstLineAtOrBelow (lines e) (Y pos + Y (scrollOff e))))) + int k\<rparr>\<rparr>) \<and>
           (\<forall>j\<le>lastStop (lines e) (clampLine (lines e)
                   (int (firstLineAtOrBelow (lines e) (Y pos + Y (scrollOff e))))).
               \<bar>fixed_I (X pos + X (scrollOff e))
                   - runePos align e (clampLine (lines e)
                       (int (firstLineAtOrBelow (lines e) (Y pos + Y (scrollOff e))))) k\<bar>
                 \<le> \<bar>fixed_I (X pos + X (scrollOff e))
                   - runePos align e (clampLine (lines e)
                       (int (firstLineAtOrBelow (lines e) (Y pos + Y (scrollOff e))))) j\<bar>)"
proof -
  from moveToLine_single_byte [OF assms, of "int (firstLineAtOrBelow (lines e) (Y pos + Y (scrollOff e)))"
      align "fixed_I (X pos + X (scrollOff e))"]
  show ?thesis
    by (auto simp: moveCoord_def Let_def coordLine_first then_do_def)
qed

lemma asciiLaidOut_example: "asciiLaidOut ed_single \<and> advancesNonNegative (lines ed_single)"
  by (simp add: asciiLaidOut_def advancesNonNegative_def singleByteLines_def ed_single_def
        line_ab_def RuneLen_def rr_len_def)

subsection \<open>Text with a multi-byte rune\<close>

text \<open>
  Claim C5, at an input where the code departs from it. The editor holds the text U+00E9,
  newline, \<open>a\<close>, laid out in two lines, with the caret at byte 2, behind the first rune:
  the caret is on line 0 with one glyph before it. \<open>layoutCaret\<close> compares the caret with
  \<open>idx\<close> plus the number of glyphs of the line, where \<open>idx\<close> and the caret count bytes;
  it passes over line 0 and returns line 1 and column 1, although the caret is not on
  line 1 and no glyph of line 1 begins before it. The line index and the column are
  inside the layout, as \<open>layoutCaret_returns\<close> shows for every editor with a line, and on
  single-byte runes line and column are right, as \<open>layoutCaret_single_byte\<close> shows.
\<close>

theorem layoutCaret_multibyte_wrong_line:
  "lines ed_two_lines \<noteq> [] \<and>
   0 \<le> caret (rr ed_two_lines) \<and> caret (rr ed_two_lines) \<le> Len_ed ed_two_lines \<and>
   caretOnLine (lines ed_two_lines) 0 (caret (rr ed_two_lines)) \<and>
   glyphsBeforeCaret (lines ed_two_lines) 0 (caret (rr ed_two_lines)) = 1 \<and>
   layoutCaret align_left ed_two_lines = Inr (1, 1, 640, 23) \<and>
   CaretPos align_left ed_two_lines = Inr (1, 1) \<and>
   \<not> caretOnLine (lines ed_two_lines) 1 (caret (rr ed_two_lines)) \<and>
   glyphsBeforeCaret (lines ed_two_lines) 1 (caret (rr ed_two_lines)) = 0"
  by code_simp

text \<open>
  Claim C2, at an input where the code departs from it. In the same editor \<open>moveToLine\<close>
  towards line 1 at the horizontal position 0 starts from the line and column that
  \<open>layoutCaret\<close> reports, steps back over one rune and leaves the caret at byte 0, the start
  of line 0, while line 1 begins at byte 3; towards line 0 it subtracts the length of line
  0 as well and leaves the caret at byte \<open>- 3\<close>, outside the text. On ASCII text the
  caret reaches the target line at the closest position, as \<open>moveToLine_single_byte\<close>
  shows.
\<close>

theorem moveToLine_multibyte_misses_line:
  "moveToLine align_left ed_two_lines 0 1
     = Inr (ed_two_lines\<lparr>rr := (rr ed_two_lines)\<lparr>caret := 0\<rparr>\<rparr>, 0) \<and>
   lineStart (lines ed_two_lines) 1 = 3 \<and>
   \<not> caretOnLine (lines ed_two_lines) 1 0 \<and>
   moveToLine align_left ed_two_lines 0 0
     = Inr (ed_two_lines\<lparr>rr := (rr ed_two_lines)\<lparr>caret := - 3\<rparr>\<rparr>, 0) \<and>
   \<not> caretOnLine (lines ed_two_lines) 0 (- 3)"
  by code_simp

text \<open>
  Claim C4, at an input where the code departs from it. In the same editor a press at
  \<open>(0, 20)\<close> selects line 1, the first line whose bottom edge, at row 26, reaches row 20;
  \<open>moveCoord\<close> then leaves the caret at byte 0, at the start of line 0, not on line 1. On
  ASCII text the caret reaches the selected line, as \<open>moveCoord_single_byte\<close> shows.
\<close>

theorem moveCoord_multibyte_misses_line:
  "coordLine (lines ed_two_lines) (20 + Y (scrollOff ed_two_lines)) 0 0 0 = 1 \<and>
   moveCoord align_left ed_two_lines \<lparr>X = 0, Y = 20\<rparr>
     = Inr (ed_two_lines\<lparr>rr := (rr ed_two_lines)\<lparr>caret := 0\<rparr>\<rparr>) \<and>
   \<not> caretOnLine (lines ed_two_lines) 1 0"
  by code_simp

section \<open>Properties of \<open>float64\<close> rounding\<close>

lemma bitlen_pos: "0 < n \<Longrightarrow> 0 < bitlen n"
  by (subst bitlen.simps) simp

lemma bitlen_nonpos: "n \<le> 0 \<Longrightarrow> bitlen n = 0"
  by (subst bitlen.simps) simp

lemma bitlen_bounds: "0 < n \<Longrightarrow> 2 ^ (bitlen n - 1) \<le> n \<and> n < 2 ^ bitlen n"
proof (induction n rule: bitlen.induct)
  case (1 n)
  show ?case
  proof (cases "n div 2 = 0")
    case True
    with 1(2) have "n = 1" by presburger
    then show ?thesis
      by (simp add: bitlen.simps [of 1] bitlen.simps [of 0])
  next
    case False
    with 1(2) have p: "0 < n div 2" by presburger
    from 1(1) [OF _ p] 1(2) have ih: "2 ^ (bitlen (n div 2) - 1) \<le> n div 2" "n div 2 < 2 ^ bitlen (n div 2)"
      by simp_all
    have b: "bitlen n = Suc (bitlen (n div 2))"
      using 1(2) by (subst bitlen.simps) simp
    from bitlen_pos [OF p] obtain k where k: "bitlen (n div 2) = Suc k"
      by (cases "bitlen (n div 2)") simp_all
    from ih show ?thesis
      unfolding b k by simp presburger
  qed
qed

lemma pow2_less_imp: "(2::int) ^ m < 2 ^ k \<Longrightarrow> m < k"
  by (rule power_less_imp_less_exp [of 2]) simp_all

lemma bitlen_eqI:
  assumes "2 ^ k \<le> n" "n < 2 ^ Suc k"
  shows "bitlen n = Suc k"
proof -
  have "(0::int) < 2 ^ k" by simp
  with assms(1) have p: "0 < n" by linarith
  note b = bitlen_bounds [OF p]
  from bitlen_pos [OF p] obtain m where m: "bitlen n = Suc m"
    by (cases "bitlen n") simp_all
  have "(2::int) ^ m \<le> n" using b unfolding m by simp
  with assms(2) have "(2::int) ^ m < 2 ^ Suc k" by linarith
  then have 1: "m < Suc k" by (rule pow2_less_imp)
  have "n < (2::int) ^ Suc m" using b unfolding m by simp
  with assms(1) have "(2::int) ^ k < 2 ^ Suc m" by linarith
  then have 2: "k < Suc m" by (rule pow2_less_imp)
  from 1 2 show ?thesis unfolding m by simp
qed

lemma bitlen_mono: "a \<le> b \<Longrightarrow> bitlen a \<le> bitlen b"
proof (cases "0 < a")
  case False
  then show ?thesis by (simp add: bitlen_nonpos)
next
  case True
  assume ab: "a \<le> b"
  with True have pb: "0 < b" by simp
  from bitlen_pos [OF True] obtain m where m: "bitlen a = Suc m"
    by (cases "bitlen a") simp_all
  have "(2::int) ^ m \<le> a" using bitlen_bounds [OF True] unfolding m by simp
  also note ab
  also have "b < 2 ^ bitlen b" using bitlen_bounds [OF pb] by simp
  finally have "m < bitlen b" by (rule pow2_less_imp)
  then show ?thesis unfolding m by simp
qed

lemma bitlen_shift: "0 < w \<Longrightarrow> bitlen (w * 2 ^ n) = bitlen w + n"
proof -
  assume p: "0 < w"
  from bitlen_pos [OF p] obtain m where m: "bitlen w = Suc m"
    by (cases "bitlen w") simp_all
  note b = bitlen_bounds [OF p, unfolded m]
  have "bitlen (w * 2 ^ n) = Suc (m + n)"
  proof (rule bitlen_eqI)
    show "2 ^ (m + n) \<le> w * 2 ^ n" using b by (simp add: power_add)
    show "w * 2 ^ n < 2 ^ Suc (m + n)" using b by (simp add: power_add)
  qed
  then show ?thesis unfolding m by simp
qed

lemma le_div_int: "0 < d \<Longrightarrow> k * d \<le> n \<Longrightarrow> k \<le> n div (d::int)"
  using zdiv_mono1 [of "k * d" n d] by simp

lemma div_mult_le_int: "0 < d \<Longrightarrow> (n div d) * d \<le> (n::int)"
  using div_mult_mod_eq [of n d] pos_mod_sign [of d n] by linarith

lemma div_less_int:
  assumes "0 < d" "n < k * d"
  shows "n div (d::int) < k"
proof (rule ccontr)
  assume "\<not> n div d < k"
  then have "k \<le> n div d" by simp
  then have "k * d \<le> (n div d) * d" using assms(1) by (simp add: mult_right_mono)
  with div_mult_le_int [OF assms(1), of n] assms(2) show False by linarith
qed

lemma round_half_even_ge: "n div d \<le> round_half_even n d"
  by (simp add: round_half_even_def Let_def)

lemma round_half_even_exact: "d dvd n \<Longrightarrow> 0 < d \<Longrightarrow> round_half_even n d = n div d"
  by (simp add: round_half_even_def Let_def)

lemma round_half_even_cancel:
  assumes "0 < c"
  shows "round_half_even (a * c) (b * c) = round_half_even a b"
proof -
  have 1: "(a * c) div (b * c) = a div b" using assms by simp
  have 2: "(a * c) mod (b * c) = (a mod b) * c" using assms by simp
  have 3: "2 * ((a mod b) * c) < b * c \<longleftrightarrow> 2 * (a mod b) < b"
    using assms mult_less_cancel_right_pos [of c "2 * (a mod b)" b] by (simp add: mult.assoc)
  have 4: "b * c < 2 * ((a mod b) * c) \<longleftrightarrow> b < 2 * (a mod b)"
    using assms mult_less_cancel_right_pos [of c b "2 * (a mod b)"] by (simp add: mult.assoc)
  show ?thesis
    unfolding round_half_even_def Let_def 1 2 3 4 ..
qed

lemma round_pos_ge:
  assumes d: "0 < d" and c0: "0 \<le> c" and rc: "representable c" and le: "c * d \<le> n"
  shows "c \<le> round_pos n d"
proof -
  define j where "j = bitlen (n div d) - 53"
  define jc where "jc = bitlen c - 53"
  have cF: "c \<le> n div d" using d le by (rule le_div_int)
  have dj: "0 < d * 2 ^ j" using d by simp
  have r: "round_pos n d = round_half_even n (d * 2 ^ j) * 2 ^ j"
    by (simp add: round_pos_def j_def Let_def)
  have jcj: "jc \<le> j" using bitlen_mono [OF cF] by (simp add: j_def jc_def)
  show ?thesis
  proof (cases "jc = j")
    case True
    from rc obtain k where k: "c = 2 ^ j * k"
      unfolding representable_def jc_def [symmetric] True by (auto simp: dvd_def)
    have "k * (d * 2 ^ j) \<le> n" using le by (simp add: k mult_ac)
    with dj have "k \<le> n div (d * 2 ^ j)" by (rule le_div_int)
    also have "\<dots> \<le> round_half_even n (d * 2 ^ j)" by (rule round_half_even_ge)
    finally have "k * 2 ^ j \<le> round_half_even n (d * 2 ^ j) * 2 ^ j"
      by (simp add: mult_right_mono)
    then show ?thesis by (simp add: r k mult.commute)
  next
    case False
    with jcj have lt: "jc < j" by simp
    then have j0: "0 < j" by simp
    then have bl: "bitlen (n div d) = j + 53" by (simp add: j_def)
    have Fpos: "0 < n div d"
    proof (rule ccontr)
      assume "\<not> 0 < n div d"
      then have "bitlen (n div d) = 0" by (simp add: bitlen_nonpos)
      with bl show False by simp
    qed
    from bitlen_bounds [OF Fpos] have "2 ^ (j + 52) \<le> n div d" by (simp add: bl add.commute)
    then have "2 ^ 52 * 2 ^ j \<le> n div d" by (simp add: power_add mult.commute)
    then have "2 ^ 52 \<le> (n div d) div 2 ^ j"
      using le_div_int [of "2 ^ j" "2 ^ 52" "n div d"] by simp
    also have "(n div d) div 2 ^ j = n div (d * 2 ^ j)"
      by (simp add: zdiv_zmult2_eq)
    also have "\<dots> \<le> round_half_even n (d * 2 ^ j)" by (rule round_half_even_ge)
    finally have "2 ^ 52 * 2 ^ j \<le> round_half_even n (d * 2 ^ j) * (2::int) ^ j"
      by (simp add: mult_right_mono)
    then have big: "2 ^ (j + 52) \<le> round_pos n d" by (simp add: r power_add mult.commute)
    show ?thesis
    proof (cases "0 < c")
      case False
      with c0 have "c = 0" by simp
      with big show ?thesis by (smt (verit) zero_less_power)
    next
      case True
      from bitlen_bounds [OF True] have "c < 2 ^ bitlen c" by simp
      also have "bitlen c \<le> jc + 53" by (simp add: jc_def)
      then have "(2::int) ^ bitlen c \<le> 2 ^ (jc + 53)" by (intro power_increasing) simp_all
      also have "jc + 53 \<le> j + 52" using lt by simp
      then have "(2::int) ^ (jc + 53) \<le> 2 ^ (j + 52)" by (intro power_increasing) simp_all
      finally show ?thesis using big by linarith
    qed
  qed
qed

lemma round_pos_representable:
  assumes "representable c"
  shows "round_pos c 1 = c"
proof -
  from assms have dv: "2 ^ (bitlen c - 53) dvd c" by (simp add: representable_def)
  have "round_half_even c (2 ^ (bitlen c - 53)) = c div 2 ^ (bitlen c - 53)"
    using dv by (intro round_half_even_exact) simp_all
  then show ?thesis using dv by (simp add: round_pos_def Let_def)
qed

lemma representable_int:
  assumes "0 < w" "w < 2 ^ 53"
  shows "representable (w * one64)"
proof -
  have "bitlen w \<le> 53"
  proof -
    from bitlen_pos [OF assms(1)] obtain m where m: "bitlen w = Suc m"
      by (cases "bitlen w") simp_all
    have "(2::int) ^ m \<le> w" using bitlen_bounds [OF assms(1)] unfolding m by simp
    with assms(2) have "(2::int) ^ m < 2 ^ 53" by linarith
    then have "m < 53" by (rule pow2_less_imp)
    then show ?thesis unfolding m by simp
  qed
  then have "bitlen (w * 2 ^ 1074) - 53 \<le> 1074"
    unfolding bitlen_shift [OF assms(1)] by simp
  then have "(2::int) ^ (bitlen (w * 2 ^ 1074) - 53) dvd 2 ^ 1074"
    by (rule le_imp_power_dvd)
  then have "(2::int) ^ (bitlen (w * 2 ^ 1074) - 53) dvd w * 2 ^ 1074"
    by (rule dvd_mult)
  then show ?thesis unfolding representable_def one64_def .
qed

lemma one64_pos: "0 < one64"
  by (simp add: one64_def)

lemma f64_of_int_exact:
  assumes "0 < w" "w < 2 ^ 53"
  shows "f64_of_int w = Fin (w * one64)"
proof -
  have r: "round_pos (w * one64) 1 = w * one64"
    using representable_int [OF assms] by (rule round_pos_representable)
  have "w * one64 < 2 ^ 53 * one64" using assms(2) one64_pos by simp
  also have "\<dots> \<le> 2 ^ 1024 * one64" using one64_pos by (intro mult_right_mono power_increasing) simp_all
  finally have b: "w * one64 < one64 * 2 ^ 1024" by (simp add: mult.commute)
  have p: "0 < w * one64" using assms(1) one64_pos by simp
  have n: "\<not> w * one64 < 0" using p by linarith
  have "0 < one64 * 2 ^ 1024" using one64_pos by simp
  with p have n2: "\<not> w * one64 \<le> - (one64 * 2 ^ 1024)" by linarith
  have n1: "\<not> one64 * 2 ^ 1024 \<le> w * one64" using b by linarith
  show ?thesis unfolding f64_of_int_def round64_def Let_def r if_not_P [OF n] if_not_P [OF n1] if_not_P [OF n2] ..
qed

lemma round64_ge:
  assumes "0 < d" "0 \<le> c" "representable c" "c * d \<le> n"
  shows "round64 n d = PInf \<or> (\<exists>v. round64 n d = Fin v \<and> c \<le> v)"
proof -
  have "0 \<le> c * d" using assms(1,2) by simp
  with assms(4) have n: "\<not> n < 0" by simp
  have g: "c \<le> round_pos n d" using assms by (rule round_pos_ge)
  have "0 < one64 * 2 ^ 1024" using one64_pos by simp
  with g assms(2) have n2: "\<not> round_pos n d \<le> - (one64 * 2 ^ 1024)" by linarith
  show ?thesis
    unfolding round64_def Let_def if_not_P [OF n] if_not_P [OF n2] using g by simp
qed

lemma f64_to_int_exact:
  assumes "0 < w" "w < 2 ^ 53"
  shows "f64_to_int other (Fin (w * one64)) = w"
proof -
  have "0 < w * one64" using assms(1) one64_pos by simp
  then have "\<not> w * one64 < 0" by linarith
  then have "quo (w * one64) one64 = w"
    using assms(1) one64_pos by (simp add: quo_def abs_mult)
  moreover have "- (2 ^ 63) \<le> w" "w < 2 ^ 63" using assms by simp_all
  ultimately show ?thesis by (simp add: f64_to_int_def Let_def)
qed

lemma valueWidth_capped:
  assumes w: "0 < wmax" "wmax < 2 ^ 53" and g: "f64_gt progress (Fin (100 * one64))"
  shows "valueWidth other wmax progress = wmax"
proof -
  define M where "M = wmax * one64"
  have m: "f64_of_int wmax = Fin M" unfolding M_def using w by (rule f64_of_int_exact)
  have t: "f64_to_int other (Fin M) = wmax" unfolding M_def using w by (rule f64_to_int_exact)
  have Mpos: "0 < M" using w(1) one64_pos by (simp add: M_def)
  have rM: "representable M" unfolding M_def using w by (rule representable_int)
  have r1: "representable one64" using representable_int [of 1] by simp
  have capped: "f64_to_int other (if f64_gt x (Fin M) then Fin M else x) = wmax"
    if "x = PInf \<or> (\<exists>v. x = Fin v \<and> M \<le> v)" for x
    using that t by (auto simp: not_less)
  have q: "f64_div progress (Fin (100 * one64)) = PInf
           \<or> (\<exists>v. f64_div progress (Fin (100 * one64)) = Fin v \<and> one64 \<le> v)"
  proof (cases progress)
    case (Fin P)
    with g have P: "100 * one64 < P" by simp
    have "one64 * (100 * one64) \<le> P * one64" using P one64_pos by simp
    with one64_pos r1 have "round64 (P * one64) (100 * one64) = PInf
        \<or> (\<exists>v. round64 (P * one64) (100 * one64) = Fin v \<and> one64 \<le> v)"
      by (intro round64_ge) simp_all
    then show ?thesis using Fin one64_pos by simp
  next
    case PInf
    then show ?thesis using one64_pos by simp
  next
    case NInf
    with g show ?thesis by simp
  next
    case NaN
    with g show ?thesis by simp
  qed
  have "f64_mul (f64_div progress (Fin (100 * one64))) (Fin M) = PInf
        \<or> (\<exists>v. f64_mul (f64_div progress (Fin (100 * one64))) (Fin M) = Fin v \<and> M \<le> v)"
  proof -
    from q consider "f64_div progress (Fin (100 * one64)) = PInf"
      | v where "f64_div progress (Fin (100 * one64)) = Fin v" "one64 \<le> v" by blast
    then show ?thesis
    proof cases
      case 1
      then show ?thesis using Mpos by simp
    next
      case 2
      have "M * one64 \<le> v * M" using 2(2) Mpos by (simp add: mult.commute)
      with one64_pos Mpos rM have "round64 (v * M) one64 = PInf
          \<or> (\<exists>u. round64 (v * M) one64 = Fin u \<and> M \<le> u)"
        by (intro round64_ge) simp_all
      then show ?thesis using 2(1) by simp
    qed
  qed
  then show ?thesis
    unfolding valueWidth_def Let_def m by (rule capped)
qed

lemma bitlen_div:
  assumes "0 < d" "2 ^ k * d \<le> n" "n < 2 ^ Suc k * d"
  shows "bitlen (n div d) = Suc k"
  using assms by (intro bitlen_eqI le_div_int div_less_int)

lemma round_pos_scaled:
  assumes "0 < d" "0 < c" "n = a * c" "d * 2 ^ j = b * c" "bitlen (n div d) - 53 = j"
  shows "round_pos n d = round_half_even a b * 2 ^ j"
  unfolding round_pos_def Let_def assms(5) assms(4) unfolding assms(3)
  by (simp add: round_half_even_cancel [OF assms(2)])


lemma quo_nonneg: "0 \<le> a \<Longrightarrow> 0 < b \<Longrightarrow> quo a b = a div b"
  by (simp add: quo_def)

lemma div_eqI_int:
  assumes "0 < d" "k * d \<le> n" "n < (k + 1) * d"
  shows "n div d = (k::int)"
proof -
  have "k \<le> n div d" using assms(1,2) by (rule le_div_int)
  moreover have "n div d < k + 1" using assms(1,3) by (rule div_less_int)
  ultimately show ?thesis by simp
qed

lemma representable_0: "representable 0"
  by (simp add: representable_def)

lemma f64_to_int_bounded:
  assumes w: "0 < wmax" "wmax < 2 ^ 53" and u: "0 \<le> u" "u \<le> wmax * one64"
  shows "0 \<le> f64_to_int other (Fin u) \<and> f64_to_int other (Fin u) \<le> wmax"
proof -
  have q: "quo u one64 = u div one64" using u(1) one64_pos by (rule quo_nonneg)
  have lo: "0 \<le> u div one64" using u(1) one64_pos by (simp add: pos_imp_zdiv_nonneg_iff)
  have "u div one64 \<le> (wmax * one64) div one64" using u(2) one64_pos by (intro zdiv_mono1)
  then have hi: "u div one64 \<le> wmax" using one64_pos by simp
  from lo hi w(2) have "- (2 ^ 63) \<le> u div one64" "u div one64 < 2 ^ 63" by simp_all
  then show ?thesis using lo hi by (simp add: f64_to_int_def Let_def q)
qed

lemma valueWidth_bounded:
  assumes w: "0 < wmax" "wmax < 2 ^ 53" and P: "0 \<le> P"
  shows "0 \<le> valueWidth other wmax (Fin P) \<and> valueWidth other wmax (Fin P) \<le> wmax"
proof -
  define M where "M = wmax * one64"
  have m: "f64_of_int wmax = Fin M" unfolding M_def using w by (rule f64_of_int_exact)
  have Mpos: "0 < M" using w(1) one64_pos by (simp add: M_def)
  have b: "0 \<le> f64_to_int other (Fin u) \<and> f64_to_int other (Fin u) \<le> wmax"
    if "0 \<le> u" "u \<le> M" for u
    using w that unfolding M_def by (rule f64_to_int_bounded)
  have capped: "0 \<le> f64_to_int other (if f64_gt x (Fin M) then Fin M else x)
                \<and> f64_to_int other (if f64_gt x (Fin M) then Fin M else x) \<le> wmax"
    if "x = PInf \<or> (\<exists>v. x = Fin v \<and> 0 \<le> v)" for x
  proof -
    from that consider "x = PInf" | v where "x = Fin v" "0 \<le> v" by blast
    then show ?thesis
    proof cases
      case 1
      then show ?thesis using b [of M] Mpos by simp
    next
      case 2
      then show ?thesis using b [of M] b [of v] Mpos by (cases "M < v") simp_all
    qed
  qed
  have "0 * (100 * one64) \<le> P * one64" using P one64_pos by simp
  with one64_pos representable_0 have "round64 (P * one64) (100 * one64) = PInf
      \<or> (\<exists>v. round64 (P * one64) (100 * one64) = Fin v \<and> 0 \<le> v)"
    by (intro round64_ge) simp_all
  then have q: "f64_div (Fin P) (Fin (100 * one64)) = PInf
           \<or> (\<exists>v. f64_div (Fin P) (Fin (100 * one64)) = Fin v \<and> 0 \<le> v)"
    using one64_pos by simp
  have "f64_mul (f64_div (Fin P) (Fin (100 * one64))) (Fin M) = PInf
        \<or> (\<exists>v. f64_mul (f64_div (Fin P) (Fin (100 * one64))) (Fin M) = Fin v \<and> 0 \<le> v)"
  proof -
    from q consider "f64_div (Fin P) (Fin (100 * one64)) = PInf"
      | v where "f64_div (Fin P) (Fin (100 * one64)) = Fin v" "0 \<le> v" by blast
    then show ?thesis
    proof cases
      case 1
      then show ?thesis using Mpos by simp
    next
      case 2
      have "0 * one64 \<le> v * M" using 2(2) Mpos by simp
      with one64_pos representable_0 have "round64 (v * M) one64 = PInf
          \<or> (\<exists>u. round64 (v * M) one64 = Fin u \<and> 0 \<le> u)"
        by (intro round64_ge) simp_all
      then show ?thesis using 2(1) by simp
    qed
  qed
  then show ?thesis
    unfolding valueWidth_def Let_def m by (rule capped)
qed

lemma round64_fin:
  assumes "0 \<le> n" "round_pos n d = v" "0 \<le> v" "v < one64 * 2 ^ 1024"
  shows "round64 n d = Fin v"
proof -
  have n: "\<not> n < 0" using assms(1) by simp
  have n1: "\<not> one64 * 2 ^ 1024 \<le> v" using assms(4) by simp
  have "0 < one64 * 2 ^ 1024" using one64_pos by simp
  with assms(3) have n2: "\<not> v \<le> - (one64 * 2 ^ 1024)" by linarith
  show ?thesis
    unfolding round64_def Let_def if_not_P [OF n] assms(2) if_not_P [OF n1] if_not_P [OF n2] ..
qed

lemma quotient_29_100:
  "f64_div (Fin (29 * one64)) (Fin (100 * one64)) = Fin (5224175567749775 * 2 ^ 1020)"
proof -
  have b: "bitlen ((29 * one64 * one64) div (100 * one64)) = Suc 1072"
    by (rule bitlen_div) (simp_all add: one64_def)
  have bj: "bitlen ((29 * one64 * one64) div (100 * one64)) - 53 = 1020"
    unfolding b by simp
  have d: "0 < 100 * one64" and c: "0 < one64 * 2 ^ 1020"
    using one64_pos by simp_all
  have n: "29 * one64 * one64 = 29 * 2 ^ 54 * (one64 * 2 ^ 1020)"
    and e: "100 * one64 * 2 ^ 1020 = 100 * (one64 * 2 ^ 1020)"
    by (simp_all add: one64_def)
  have "round_pos (29 * one64 * one64) (100 * one64) = round_half_even (29 * 2 ^ 54) 100 * 2 ^ 1020"
    using d c n e bj by (rule round_pos_scaled)
  also have "round_half_even (29 * 2 ^ 54) 100 = 5224175567749775"
    by (simp add: round_half_even_def Let_def)
  finally have r: "round_pos (29 * one64 * one64) (100 * one64) = 5224175567749775 * 2 ^ 1020" .
  have "round64 (29 * one64 * one64) (100 * one64) = Fin (5224175567749775 * 2 ^ 1020)"
    using r by (rule round64_fin [rotated]) (simp_all add: one64_def)
  then show ?thesis using one64_pos by simp
qed

lemma product_29_100:
  "f64_mul (Fin (5224175567749775 * 2 ^ 1020)) (Fin (100 * one64)) = Fin (8162774324609023 * 2 ^ 1026)"
proof -
  have b: "bitlen ((5224175567749775 * 2 ^ 1020 * (100 * one64)) div one64) = Suc 1078"
    by (rule bitlen_div) (simp_all add: one64_def)
  have bj: "bitlen ((5224175567749775 * 2 ^ 1020 * (100 * one64)) div one64) - 53 = 1026"
    unfolding b by simp
  have c: "0 < one64 * 2 ^ 1020"
    using one64_pos by simp
  have n: "5224175567749775 * 2 ^ 1020 * (100 * one64) = 522417556774977500 * (one64 * 2 ^ 1020)"
    and e: "one64 * 2 ^ 1026 = 64 * (one64 * 2 ^ 1020)"
    by (simp_all add: one64_def)
  have "round_pos (5224175567749775 * 2 ^ 1020 * (100 * one64)) one64
          = round_half_even 522417556774977500 64 * 2 ^ 1026"
    using one64_pos c n e bj by (rule round_pos_scaled)
  also have "round_half_even 522417556774977500 64 = 8162774324609023"
    by (simp add: round_half_even_def Let_def)
  finally have r: "round_pos (5224175567749775 * 2 ^ 1020 * (100 * one64)) one64 = 8162774324609023 * 2 ^ 1026" .
  have "round64 (5224175567749775 * 2 ^ 1020 * (100 * one64)) one64 = Fin (8162774324609023 * 2 ^ 1026)"
    using r by (rule round64_fin [rotated]) (simp_all add: one64_def)
  then show ?thesis by simp
qed

lemma truncate_29_100:
  "f64_to_int other (Fin (8162774324609023 * 2 ^ 1026)) = 28"
proof -
  have d: "(8162774324609023 * 2 ^ 1026) div one64 = 28"
    by (rule div_eqI_int) (simp_all add: one64_def)
  have "quo (8162774324609023 * 2 ^ 1026) one64 = (8162774324609023 * 2 ^ 1026) div one64"
    using one64_pos by (intro quo_nonneg) simp_all
  then have "quo (8162774324609023 * 2 ^ 1026) one64 = 28" unfolding d .
  then show ?thesis unfolding f64_to_int_def Let_def by simp
qed

lemma valueWidth_29_100: "valueWidth other 100 (Fin (29 * one64)) = 28"
proof -
  have m: "f64_of_int 100 = Fin (100 * one64)" by (rule f64_of_int_exact) simp_all
  have g: "\<not> f64_gt (Fin (8162774324609023 * 2 ^ 1026)) (Fin (100 * one64))"
    by (simp add: one64_def)
  show ?thesis
    unfolding valueWidth_def Let_def m quotient_29_100 product_29_100 if_not_P [OF g]
    by (rule truncate_29_100)
qed

section \<open>The width of the completed progress\<close>

lemma value_pb_float64:
  "value_pb (float64_go other) p wmax progress =
     borderedRectangle (ProgressColor p) (valueWidth other wmax progress) (Height p)"
  by (simp add: value_pb_def valueWidth_def float64_go_def Let_def)

text \<open>
  Claim C6, at an input where the literal reading fails. For a progress of 29 and a maximum
  width of 100 the quotient 29 / 100 rounds to \<open>5224175567749775 * 2 ^ 1020\<close> multiples of
  \<open>2 ^ (- 1074)\<close>, its product with 100 rounds to \<open>8162774324609023 * 2 ^ 1026\<close> multiples, just
  below 29, and the completed-progress rectangle is 28 wide, where 29 / 100 times 100,
  truncated, is 29.
\<close>

theorem value_width_29_of_100:
  "Layout_pb (float64_go to_int_zero) gray_example bar_example 100 (Fin (29 * one64)) =
     [ClipRect 100 10 2, Fill gray_example 100 10,
      ClipRect 28 10 2, Fill (RGBA 0 200 0 255) 28 10]
   \<and> quo (29 * 100) 100 = 29"
proof -
  have "quo 10 5 = 2" "quo (29 * 100) 100 = 29" by (simp_all add: quo_def)
  then show ?thesis
    unfolding Layout_pb_def value_pb_float64 valueWidth_29_100 track_def borderedRectangle_def
    by (simp add: bar_example_def)
qed

text \<open>
  Claim C6, as amended. For every progress value, finite, infinite or NaN, and every
  maximum width, \<open>Layout\<close> draws the track at the full maximum width and after it the
  completed-progress rectangle, both of height \<open>p.Height\<close>; the width of the rectangle is
  the \<open>float64\<close> product of the \<open>float64\<close> quotient of the progress by 100 and the
  maximum width, replaced by the maximum width when it is greater, and converted to
  \<open>int\<close>. For a maximum width from 1 to \<open>2 ^ 53 - 1\<close> that width is the maximum width
  whenever the progress exceeds 100, the positive infinity included, and lies between 0
  and the maximum width for every finite progress that is not negative.
\<close>

theorem Layout_pb_float64:
  "Layout_pb (float64_go other) gray p wmax progress =
     [ClipRect wmax (Height p) (quo (Height p) 5), Fill gray wmax (Height p),
      ClipRect (valueWidth other wmax progress) (Height p) (quo (Height p) 5),
      Fill (ProgressColor p) (valueWidth other wmax progress) (Height p)]
   \<and> (0 < wmax \<and> wmax < 2 ^ 53 \<and> f64_gt progress (Fin (100 * one64))
        \<longrightarrow> valueWidth other wmax progress = wmax)
   \<and> (0 < wmax \<and> wmax < 2 ^ 53 \<and> 0 \<le> P
        \<longrightarrow> 0 \<le> valueWidth other wmax (Fin P) \<and> valueWidth other wmax (Fin P) \<le> wmax)"
proof (intro conjI impI)
  show "Layout_pb (float64_go other) gray p wmax progress =
     [ClipRect wmax (Height p) (quo (Height p) 5), Fill gray wmax (Height p),
      ClipRect (valueWidth other wmax progress) (Height p) (quo (Height p) 5),
      Fill (ProgressColor p) (valueWidth other wmax progress) (Height p)]"
    unfolding Layout_pb_def value_pb_float64 track_def borderedRectangle_def by simp
next
  assume "0 < wmax \<and> wmax < 2 ^ 53 \<and> f64_gt progress (Fin (100 * one64))"
  then show "valueWidth other wmax progress = wmax"
    by (intro valueWidth_capped) simp_all
next
  assume a: "0 < wmax \<and> wmax < 2 ^ 53 \<and> 0 \<le> P"
  then have b: "0 \<le> valueWidth other wmax (Fin P) \<and> valueWidth other wmax (Fin P) \<le> wmax"
    by (intro valueWidth_bounded) simp_all
  from b show "0 \<le> valueWidth other wmax (Fin P)" ..
  from b show "valueWidth other wmax (Fin P) \<le> wmax" ..
qed

text \<open>The amended claim at a progress of 150 and a maximum width of 100: the rectangle is
  100 wide.\<close>

theorem Layout_pb_float64_witness:
  "(0::int) < 100 \<and> (100::int) < 2 ^ 53 \<and> f64_gt (Fin (150 * one64)) (Fin (100 * one64))
   \<and> 0 \<le> 150 * one64
   \<and> valueWidth to_int_zero 100 (Fin (150 * one64)) = 100
   \<and> Layout_pb (float64_go to_int_zero) gray_example bar_example 100 (Fin (150 * one64)) =
       [ClipRect 100 10 2, Fill gray_example 100 10,
        ClipRect 100 10 2, Fill (RGBA 0 200 0 255) 100 10]"
proof -
  have h: "(0::int) < 100" "(100::int) < 2 ^ 53" "f64_gt (Fin (150 * one64)) (Fin (100 * one64))"
    "0 \<le> 150 * one64"
    using one64_pos by simp_all
  have q: "quo 10 5 = 2" by (simp add: quo_def)
  from Layout_pb_float64 [of to_int_zero gray_example bar_example 100 "Fin (150 * one64)" "150 * one64"] h
  have "valueWidth to_int_zero 100 (Fin (150 * one64)) = 100"
    and "Layout_pb (float64_go to_int_zero) gray_example bar_example 100 (Fin (150 * one64)) =
     [ClipRect 100 (Height bar_example) (quo (Height bar_example) 5), Fill gray_example 100 (Height bar_example),
      ClipRect (valueWidth to_int_zero 100 (Fin (150 * one64))) (Height bar_example) (quo (Height bar_example) 5),
      Fill (ProgressColor bar_example) (valueWidth to_int_zero 100 (Fin (150 * one64))) (Height bar_example)]"
    by blast+
  then show ?thesis using h q by (simp add: bar_example_def)
qed

end
